theory Spec2Isabelle
  imports Complex_Main "HOL-Library.Sublist"
begin

section \<open>Hub navigation highlighting: a shallow embedding\<close>

text \<open>
  The development embeds \<^verbatim>\<open>src/HubNavigationApplicationCustomizer.ts\<close>: the class
  \<^verbatim>\<open>HubNavigationApplicationCustomizer\<close> with its four private fields and its methods
  \<^verbatim>\<open>onInit\<close>, \<^verbatim>\<open>_loadConfig\<close>, \<^verbatim>\<open>_injectStyles\<close>, \<^verbatim>\<open>_applyHighlighting\<close>,
  \<^verbatim>\<open>_extractSiteName\<close> and \<^verbatim>\<open>_observeDOM\<close>. Isabelle names cannot start with an
  underscore, so the private members drop it (\<open>styleElement\<close> for \<^verbatim>\<open>_styleElement\<close>,
  \<open>loadConfig\<close> for \<^verbatim>\<open>_loadConfig\<close>, and so on). The sources hold a second copy of the
  class, which adds the styling of mega-menu labels and a throttle delay of 50; its
  methods named above read the same, and the file named above is the one embedded.
\<close>

subsection \<open>JavaScript strings\<close>

text \<open>
  A string is a \<open>char list\<close>. The separators the code searches for (\<^verbatim>\<open>/sites/\<close>, \<^verbatim>\<open>/\<close>) are
  ASCII, so searching the bytes of a UTF-8 string finds the same occurrences as searching
  the UTF-16 code units JavaScript sees.

  \<^verbatim>\<open>String.prototype.split(sep)\<close> with a string separator scans from the left; at an occurrence
  of \<open>sep\<close> it closes the current piece and continues behind the occurrence. The last piece
  is what remains, so the result is never empty. An empty separator splits into single
  code units.
\<close>

function split_from :: "string \<Rightarrow> string \<Rightarrow> string \<Rightarrow> string list" where
  "split_from sep piece [] = [piece]"
| "split_from sep piece (c # cs) =
     (if sep \<noteq> [] \<and> prefix sep (c # cs)
      then piece # split_from sep [] (drop (length sep) (c # cs))
      else split_from sep (piece @ [c]) cs)"
  by pat_completeness auto
termination
  by (relation "measure (\<lambda>(sep, piece, s). length s)") auto

definition split :: "string \<Rightarrow> string \<Rightarrow> string list" where
  "split s sep = (if sep = [] then map (\<lambda>c. [c]) s else split_from sep [] s)"

text \<open>Reading \<^verbatim>\<open>xs[i]\<close>: \<^verbatim>\<open>undefined\<close> (here \<open>None\<close>) out of range.\<close>

definition at_index :: "'a list \<Rightarrow> nat \<Rightarrow> 'a option" where
  "at_index xs i = (if i < length xs then Some (xs ! i) else None)"

text \<open>\<^verbatim>\<open>s.indexOf(sep)\<close>: the position of the first occurrence, or \<open>-1\<close>.\<close>

fun indexOf :: "string \<Rightarrow> string \<Rightarrow> int" where
  "indexOf [] sep = (if sep = [] then 0 else - 1)"
| "indexOf (c # cs) sep =
     (if prefix sep (c # cs) then 0
      else (let r = indexOf cs sep in if r < 0 then - 1 else r + 1))"

text \<open>
  \<^verbatim>\<open>s.toLowerCase()\<close> folds every cased code point by the Unicode tables of the runtime,
  which are not modelled: it is a parameter of the host (the field \<open>toLowerCase\<close> of \<open>env\<close>
  below), an arbitrary function on strings. \<open>ascii_toLowerCase\<close> folds the letters A to Z
  and is what JavaScript computes on a string of ASCII characters; only the demonstration
  host uses it, on such strings.
\<close>

definition lower_char :: "char \<Rightarrow> char" where
  "lower_char c =
     (case map_of (zip ''ABCDEFGHIJKLMNOPQRSTUVWXYZ'' ''abcdefghijklmnopqrstuvwxyz'') c of
        Some d \<Rightarrow> d
      | None \<Rightarrow> c)"

definition ascii_toLowerCase :: "string \<Rightarrow> string" where
  "ascii_toLowerCase s = map lower_char s"

text \<open>\<^verbatim>\<open>s.replace(/\/$/, '')\<close>: drops one slash at the very end of the string.\<close>

definition replace_trailing_slash :: "string \<Rightarrow> string" where
  "replace_trailing_slash s = (if s \<noteq> [] \<and> last s = CHR ''/'' then butlast s else s)"

text \<open>\<^verbatim>\<open>xs.join(sep)\<close> on an array of strings.\<close>

fun join :: "string list \<Rightarrow> string \<Rightarrow> string" where
  "join [] sep = []"
| "join [x] sep = x"
| "join (x # y # ys) sep = x @ sep @ join (y # ys) sep"

subsection \<open>Site-name extraction\<close>

text \<open>
  \<^verbatim>\<open>_extractSiteName(url)\<close>:
  \<^verbatim>\<open>const match = url.split('/sites/')[1]; return match ? match.split('/')[0] : '';\<close>
  The argument is a string at both call sites, so nothing in the body throws and the
  \<^verbatim>\<open>catch\<close> branch is not reached. \<^verbatim>\<open>match\<close> is falsy when it is \<^verbatim>\<open>undefined\<close> or empty.
\<close>

definition extractSiteName :: "string \<Rightarrow> string" where
  "extractSiteName url =
     (case at_index (split url ''/sites/'') 1 of
        None \<Rightarrow> ''''
      | Some match \<Rightarrow>
          (if match \<noteq> ''''
           then (case at_index (split match ''/'') 0 of Some seg \<Rightarrow> seg | None \<Rightarrow> '''')
           else ''''))"

subsection \<open>JavaScript values, configuration, the host\<close>

text \<open>
  The body of the configuration response is whatever \<^verbatim>\<open>response.json()\<close> yields, so a field
  of the configuration can hold any JSON value. A number is a double; only whether it is
  zero or NaN matters here.
\<close>

datatype jsnum = Finite real | PosInfinity | NegInfinity | NaN

datatype jsval =
    Undefined
  | Null
  | Bool bool
  | Num jsnum
  | Str string
  | Arr "jsval list"
  | Obj "(string \<times> jsval) list"

fun truthy :: "jsval \<Rightarrow> bool" where
  "truthy Undefined = False"
| "truthy Null = False"
| "truthy (Bool b) = b"
| "truthy (Num (Finite r)) = (r \<noteq> 0)"
| "truthy (Num NaN) = False"
| "truthy (Num PosInfinity) = True"
| "truthy (Num NegInfinity) = True"
| "truthy (Str s) = (s \<noteq> [])"
| "truthy (Arr vs) = True"
| "truthy (Obj kvs) = True"

text \<open>\<^verbatim>\<open>a || b\<close>.\<close>

definition js_or :: "jsval \<Rightarrow> jsval \<Rightarrow> jsval" where
  "js_or a b = (if truthy a then a else b)"

datatype exn = TypeError string | SyntaxError string | NetworkError string | HostError string

text \<open>
  \<^verbatim>\<open>v.k\<close> for a property name \<open>k\<close> that no prototype defines (the four configuration
  names): a TypeError on \<^verbatim>\<open>null\<close> and \<^verbatim>\<open>undefined\<close>, the own property of an object, and
  \<^verbatim>\<open>undefined\<close> otherwise. The pairs of \<open>Obj\<close> are the own properties of the parsed object.
\<close>

fun get_property :: "jsval \<Rightarrow> string \<Rightarrow> exn + jsval" where
  "get_property Undefined k = Inl (TypeError k)"
| "get_property Null k = Inl (TypeError k)"
| "get_property (Obj kvs) k = Inr (case map_of kvs k of Some v \<Rightarrow> v | None \<Rightarrow> Undefined)"
| "get_property (Bool b) k = Inr Undefined"
| "get_property (Num n) k = Inr Undefined"
| "get_property (Str s) k = Inr Undefined"
| "get_property (Arr vs) k = Inr Undefined"

record INavConfig =
  currentSiteColor :: jsval
  currentSiteFontWeight :: jsval
  otherSiteColor :: jsval
  otherSiteFontWeight :: jsval

text \<open>
  The response of \<^verbatim>\<open>spHttpClient.get\<close>: its \<^verbatim>\<open>ok\<close> flag and the outcome of awaiting
  \<^verbatim>\<open>response.json()\<close> (\<open>Inl\<close>: the promise rejects, the body does not parse).
\<close>

record response =
  ok :: bool
  json :: "exn + jsval"

text \<open>
  What the class takes from outside. \<^verbatim>\<open>DEFAULT_NAV_CONFIG\<close> is imported from
  \<^verbatim>\<open>./INavConfig\<close>, which is not among the sources, so it is a parameter, and so is the
  runtime's \<^verbatim>\<open>String.prototype.toLowerCase\<close>. The calls into the SharePoint Framework
  context may throw (\<open>Inl\<close>, \<open>Some\<close>); the calls of the DOM standard on the document
  (\<^verbatim>\<open>createElement\<close>, \<^verbatim>\<open>appendChild\<close>, \<^verbatim>\<open>querySelectorAll\<close> with a valid selector,
  \<^verbatim>\<open>getAttribute\<close>, \<^verbatim>\<open>classList\<close>, \<^verbatim>\<open>MutationObserver\<close>, \<^verbatim>\<open>setTimeout\<close>) and the logger do
  not.
\<close>

record env =
  DEFAULT_NAV_CONFIG :: INavConfig
  toLowerCase :: "string \<Rightarrow> string"
  absoluteUrl :: "exn + string"
  configPath :: "string option"
  spHttpClient_get :: "string \<Rightarrow> exn + response"
  navigatedEvent_add :: "exn option"

subsection \<open>The instance and the page\<close>

record element =
  href :: "string option"
  classList :: "string list"

text \<open>
  A created \<^verbatim>\<open>style\<close> element: its attributes, and the configuration whose four values
  were interpolated into the template assigned to \<^verbatim>\<open>innerHTML\<close> (\<open>None\<close> before the
  assignment).
\<close>

record style_node =
  attributes :: "(string \<times> string) list"
  innerHTML :: "INavConfig option"

datatype timer_callback = ThrottledPass | NavigationPass

datatype log_entry = LogInfo string | LogWarn string | LogError string exn

text \<open>
  The four private fields of the instance, followed by the part of the page the class
  reads and writes: the elements by handle, the answer of \<^verbatim>\<open>document.querySelectorAll\<close>
  (a list of handles in document order), the children of \<^verbatim>\<open>document.head\<close>, the created
  style elements, the mutation observers constructed and those observing
  \<^verbatim>\<open>document.body\<close>, the pending timeouts (handle, callback, delay), the number of handlers
  subscribed to the navigation event, the next free handle and the log. \<open>passes\<close> counts
  the calls of \<^verbatim>\<open>_applyHighlighting\<close>; the code has no such counter, it only lets a
  statement say how often a pass ran.
\<close>

record state =
  styleElement :: "nat option"
  config :: INavConfig
  observer :: "nat option"
  throttleTimer :: "nat option"
  elements :: "nat \<Rightarrow> element"
  querySelectorAll :: "string \<Rightarrow> nat list"
  head :: "nat list"
  nodes :: "nat \<Rightarrow> style_node"
  constructed :: "nat list"
  observing :: "nat list"
  timers :: "(nat \<times> timer_callback \<times> nat) list"
  nav_handlers :: nat
  next_handle :: nat
  logged :: "log_entry list"
  passes :: nat

subsection \<open>Statements that may throw\<close>

text \<open>
  A block of statements maps a state to an outcome and the state it leaves: \<open>Inr v\<close>
  when it completes with \<open>v\<close>, \<open>Inl e\<close> when it throws \<open>e\<close>. What was written before a
  throw stays written.
\<close>

type_synonym 'a prog = "state \<Rightarrow> (exn + 'a) \<times> state"

definition ret :: "'a \<Rightarrow> 'a prog" where
  "ret v = (\<lambda>s. (Inr v, s))"

definition throw :: "exn \<Rightarrow> 'a prog" where
  "throw e = (\<lambda>s. (Inl e, s))"

definition lift :: "exn + 'a \<Rightarrow> 'a prog" where
  "lift r = (\<lambda>s. (r, s))"

definition gets :: "(state \<Rightarrow> 'a) \<Rightarrow> 'a prog" where
  "gets f = (\<lambda>s. (Inr (f s), s))"

definition modify :: "(state \<Rightarrow> state) \<Rightarrow> unit prog" where
  "modify f = (\<lambda>s. (Inr (), f s))"

definition andThen :: "'a prog \<Rightarrow> ('a \<Rightarrow> 'b prog) \<Rightarrow> 'b prog" where
  "andThen m f = (\<lambda>s. case m s of (Inl e, s') \<Rightarrow> (Inl e, s') | (Inr v, s') \<Rightarrow> f v s')"

definition try_catch :: "'a prog \<Rightarrow> (exn \<Rightarrow> 'a prog) \<Rightarrow> 'a prog" where
  "try_catch m handler = (\<lambda>s. case m s of (Inl e, s') \<Rightarrow> handler e s' | (Inr v, s') \<Rightarrow> (Inr v, s'))"

text \<open>\<^verbatim>\<open>try { m } finally { fin }\<close>: \<open>fin\<close> runs either way; the outcome of \<open>m\<close> stands unless \<open>fin\<close> throws.\<close>

definition try_finally :: "'a prog \<Rightarrow> unit prog \<Rightarrow> 'a prog" where
  "try_finally m fin =
     (\<lambda>s. case m s of (r, s') \<Rightarrow> (case fin s' of (Inl e, s'') \<Rightarrow> (Inl e, s'') | (Inr u, s'') \<Rightarrow> (r, s'')))"

fun forEach :: "'a list \<Rightarrow> ('a \<Rightarrow> unit prog) \<Rightarrow> unit prog" where
  "forEach [] f = ret ()"
| "forEach (x # xs) f = andThen (f x) (\<lambda>u. forEach xs f)"

definition Log_info :: "string \<Rightarrow> unit prog" where
  "Log_info msg = modify (\<lambda>s. s\<lparr>logged := logged s @ [LogInfo msg]\<rparr>)"

definition Log_warn :: "string \<Rightarrow> unit prog" where
  "Log_warn msg = modify (\<lambda>s. s\<lparr>logged := logged s @ [LogWarn msg]\<rparr>)"

definition Log_error :: "string \<Rightarrow> exn \<Rightarrow> unit prog" where
  "Log_error msg e = modify (\<lambda>s. s\<lparr>logged := logged s @ [LogError msg e]\<rparr>)"

subsection \<open>Configuration loading\<close>

text \<open>
  \<^verbatim>\<open>_loadConfig\<close>. The object literal assigned to \<^verbatim>\<open>this._config\<close> evaluates its four
  property reads in order before the assignment takes place, inside the inner \<^verbatim>\<open>try\<close>.
  \<^verbatim>\<open>await\<close> of a rejected promise throws at the \<^verbatim>\<open>await\<close>. \<open>configUrl\<close> is the local
  constant of that name: the site URL, a slash, and \<^verbatim>\<open>this.properties.configPath\<close> or, when
  that is missing or empty, the default path.
\<close>

definition configUrl :: "env \<Rightarrow> string \<Rightarrow> string" where
  "configUrl h siteUrl =
     (let path = (case configPath h of
                    Some p \<Rightarrow> if p \<noteq> [] then p else ''SiteAssets/hub-nav-config.json''
                  | None \<Rightarrow> ''SiteAssets/hub-nav-config.json'')
      in siteUrl @ ''/'' @ path)"

definition loadConfig :: "env \<Rightarrow> unit prog" where
  "loadConfig h =
     try_catch
       (andThen (lift (absoluteUrl h)) (\<lambda>siteUrl.
        andThen (lift (spHttpClient_get h (configUrl h siteUrl))) (\<lambda>resp.
           if ok resp then
             try_catch
               (andThen (lift (json resp)) (\<lambda>j.
                andThen (lift (get_property j ''currentSiteColor'')) (\<lambda>c1.
                andThen (lift (get_property j ''currentSiteFontWeight'')) (\<lambda>c2.
                andThen (lift (get_property j ''otherSiteColor'')) (\<lambda>c3.
                andThen (lift (get_property j ''otherSiteFontWeight'')) (\<lambda>c4.
                andThen (modify (\<lambda>s. s\<lparr>config :=
                    \<lparr>currentSiteColor = js_or c1 (currentSiteColor (DEFAULT_NAV_CONFIG h)),
                     currentSiteFontWeight = js_or c2 (currentSiteFontWeight (DEFAULT_NAV_CONFIG h)),
                     otherSiteColor = js_or c3 (otherSiteColor (DEFAULT_NAV_CONFIG h)),
                     otherSiteFontWeight = js_or c4 (otherSiteFontWeight (DEFAULT_NAV_CONFIG h))\<rparr>\<rparr>))
                  (\<lambda>u. Log_info ''Config loaded from Site Assets'')))))))
               (\<lambda>parseError. Log_error ''Failed to parse config JSON'' parseError)
           else Log_warn (''Config file not found at '' @ configUrl h siteUrl @ '', using defaults''))))
       (\<lambda>error. Log_error ''Failed to load config'' error)"

subsection \<open>Style injection\<close>

text \<open>
  The DOM operations \<^verbatim>\<open>_injectStyles\<close> uses. \<^verbatim>\<open>node.remove()\<close> takes the node out of its
  parent's children; \<^verbatim>\<open>appendChild\<close> puts it last (moving it when it is already a child).
\<close>

definition node_remove :: "nat \<Rightarrow> unit prog" where
  "node_remove n = modify (\<lambda>s. s\<lparr>head := removeAll n (head s)\<rparr>)"

definition createElement_style :: "nat prog" where
  "createElement_style =
     (\<lambda>s. (Inr (next_handle s),
            s\<lparr>nodes := (nodes s)(next_handle s := \<lparr>attributes = [], innerHTML = None\<rparr>),
              next_handle := Suc (next_handle s)\<rparr>))"

definition setAttribute :: "nat \<Rightarrow> string \<Rightarrow> string \<Rightarrow> unit prog" where
  "setAttribute n k v =
     modify (\<lambda>s. s\<lparr>nodes := (nodes s)
       (n := (nodes s n)\<lparr>attributes := (k, v) # filter (\<lambda>a. fst a \<noteq> k) (attributes (nodes s n))\<rparr>)\<rparr>)"

text \<open>
  The template literal assigned to \<^verbatim>\<open>innerHTML\<close> converts the four configuration values
  to strings, in order. The conversion of an object asks for its \<^verbatim>\<open>toString\<close>: an object
  parsed from JSON that has a property of that name holds a value there that cannot be
  called, and the conversion throws a TypeError; without one it is \<^verbatim>\<open>[object Object]\<close>. An
  array converts its elements (\<^verbatim>\<open>null\<close> to the empty string); every other value converts.
  What the style element keeps is the configuration whose values were interpolated.
\<close>

fun toString_throws :: "jsval \<Rightarrow> bool" where
  "toString_throws Undefined = False"
| "toString_throws Null = False"
| "toString_throws (Bool b) = False"
| "toString_throws (Num n) = False"
| "toString_throws (Str s) = False"
| "toString_throws (Arr vs) = list_ex toString_throws vs"
| "toString_throws (Obj kvs) = (''toString'' \<in> set (map fst kvs))"

definition template :: "INavConfig \<Rightarrow> exn + INavConfig" where
  "template c =
     (if toString_throws (currentSiteColor c) \<or> toString_throws (currentSiteFontWeight c) \<or>
         toString_throws (otherSiteColor c) \<or> toString_throws (otherSiteFontWeight c)
      then Inl (TypeError ''Cannot convert object to primitive value'')
      else Inr c)"

definition set_innerHTML :: "nat \<Rightarrow> INavConfig \<Rightarrow> unit prog" where
  "set_innerHTML n c = modify (\<lambda>s. s\<lparr>nodes := (nodes s)(n := (nodes s n)\<lparr>innerHTML := Some c\<rparr>)\<rparr>)"

definition head_appendChild :: "nat \<Rightarrow> unit prog" where
  "head_appendChild n = modify (\<lambda>s. s\<lparr>head := removeAll n (head s) @ [n]\<rparr>)"

text \<open>\<^verbatim>\<open>if (this._styleElement) { this._styleElement.remove(); }\<close>, the first statement.\<close>

definition remove_previous :: "unit prog" where
  "remove_previous =
     andThen (gets styleElement) (\<lambda>old. case old of Some n \<Rightarrow> node_remove n | None \<Rightarrow> ret ())"

definition injectStyles :: "unit prog" where
  "injectStyles =
     try_catch
       (andThen remove_previous (\<lambda>u.
        andThen createElement_style (\<lambda>n.
        andThen (modify (\<lambda>s. s\<lparr>styleElement := Some n\<rparr>)) (\<lambda>u.
        andThen (setAttribute n ''data-hub-nav-customizer'' ''true'') (\<lambda>u.
        andThen (gets config) (\<lambda>c.
        andThen (lift (template c)) (\<lambda>text.
        andThen (set_innerHTML n text) (\<lambda>u.
        head_appendChild n))))))))
       (\<lambda>error. Log_error ''Failed to inject styles'' error)"

subsection \<open>The highlighting pass\<close>

definition NAV_SELECTORS :: "string list" where
  "NAV_SELECTORS =
     [''[data-automationid=\"HubNav\"] a'',
      ''[class*=\"hubNav\"] a'',
      ''[class*=\"HubNav\"] a'',
      ''[class*=\"megaMenu\"] a'',
      ''[class*=\"MegaMenu\"] a'',
      ''[class*=\"topNav\"] a'',
      ''[class*=\"TopNav\"] a'',
      ''[class*=\"CompositeHeader\"] a'',
      ''nav a[href*=\"/sites/\"]'',
      ''[role=\"navigation\"] a[href*=\"/sites/\"]'']"

text \<open>
  \<^verbatim>\<open>classList.remove(t1, t2)\<close> drops the tokens; \<^verbatim>\<open>classList.add(t)\<close> appends a token that
  is not there yet.
\<close>

definition classList_remove :: "nat \<Rightarrow> string list \<Rightarrow> unit prog" where
  "classList_remove l ts =
     modify (\<lambda>s. s\<lparr>elements := (elements s)
       (l := (elements s l)\<lparr>classList := filter (\<lambda>c. c \<notin> set ts) (classList (elements s l))\<rparr>)\<rparr>)"

definition classList_add :: "nat \<Rightarrow> string \<Rightarrow> unit prog" where
  "classList_add l t =
     modify (\<lambda>s. s\<lparr>elements := (elements s)
       (l := (elements s l)\<lparr>classList :=
          (if t \<in> set (classList (elements s l)) then classList (elements s l)
           else classList (elements s l) @ [t])\<rparr>)\<rparr>)"

text \<open>
  The callback of \<^verbatim>\<open>allLinks.forEach\<close>, for the link with handle \<open>l\<close>.
  \<^verbatim>\<open>link.getAttribute('href') || ''\<close> is the attribute, or the empty string when it is
  missing. The site name is taken from the lower-cased target; the test for the site-path
  marker reads \<^verbatim>\<open>href\<close>, the target as it is written.
\<close>

definition link_callback :: "env \<Rightarrow> string \<Rightarrow> nat \<Rightarrow> unit prog" where
  "link_callback h currentSiteName l =
     try_catch
       (andThen (gets (\<lambda>s. href (elements s l))) (\<lambda>a.
        let target = (case a of Some v \<Rightarrow> v | None \<Rightarrow> '''');
            linkSiteName = extractSiteName (toLowerCase h target)
        in andThen (classList_remove l [''hub-nav-current-site'', ''hub-nav-other-site'']) (\<lambda>u.
           if linkSiteName \<noteq> '''' \<and> linkSiteName = currentSiteName
           then classList_add l ''hub-nav-current-site''
           else if indexOf target ''/sites/'' > - 1
           then classList_add l ''hub-nav-other-site''
           else ret ())))
       (\<lambda>linkError. Log_warn ''Failed to process link'')"

text \<open>
  \<^verbatim>\<open>_applyHighlighting\<close>. \<^verbatim>\<open>if (!currentSiteName) return;\<close> leaves on the empty name. The
  query is answered by the page. The selectors test the links' ancestors for class names
  containing \<^verbatim>\<open>hubNav\<close>, \<^verbatim>\<open>HubNav\<close>, \<^verbatim>\<open>megaMenu\<close>, \<^verbatim>\<open>MegaMenu\<close>, \<^verbatim>\<open>topNav\<close>, \<^verbatim>\<open>TopNav\<close>,
  \<^verbatim>\<open>CompositeHeader\<close>, for the \<^verbatim>\<open>nav\<close> tag or role, and the links' \<^verbatim>\<open>href\<close>; the two marker
  classes contain none of these, so marking links does not change the answer, and the
  pass leaves \<open>querySelectorAll\<close> as it is.
\<close>

definition applyHighlighting :: "env \<Rightarrow> unit prog" where
  "applyHighlighting h =
     andThen (modify (\<lambda>s. s\<lparr>passes := Suc (passes s)\<rparr>)) (\<lambda>u.
     try_catch
       (andThen (lift (absoluteUrl h)) (\<lambda>url.
        let currentSiteUrl = toLowerCase h (replace_trailing_slash url);
            currentSiteName = extractSiteName currentSiteUrl
        in if currentSiteName = '''' then ret ()
           else andThen (gets (\<lambda>s. querySelectorAll s (join NAV_SELECTORS '', ''))) (\<lambda>allLinks.
                forEach allLinks (link_callback h currentSiteName))))
       (\<lambda>error. Log_error ''Failed to apply highlighting'' error))"

subsection \<open>Timers, the mutation observer, start-up\<close>

definition OBSERVER_THROTTLE_MS :: nat where
  "OBSERVER_THROTTLE_MS = 300"

text \<open>
  \<^verbatim>\<open>setTimeout\<close> files the callback under a new handle, which is positive, and returns
  the handle.
\<close>

definition setTimeout :: "timer_callback \<Rightarrow> nat \<Rightarrow> nat prog" where
  "setTimeout cb delay =
     (\<lambda>s. (Inr (Suc (next_handle s)),
            s\<lparr>timers := timers s @ [(Suc (next_handle s), cb, delay)],
              next_handle := Suc (Suc (next_handle s))\<rparr>))"

text \<open>\<^verbatim>\<open>if (this._throttleTimer)\<close>: \<^verbatim>\<open>null\<close> and \<open>0\<close> are falsy.\<close>

definition timer_set :: "nat option \<Rightarrow> bool" where
  "timer_set t = (case t of None \<Rightarrow> False | Some n \<Rightarrow> n \<noteq> 0)"

text \<open>
  The function handed to \<^verbatim>\<open>window.setTimeout\<close> by the observer, for any pass it may run:
  \<^verbatim>\<open>try { pass } catch { log } finally { this._throttleTimer = null }\<close>.
\<close>

definition throttled :: "unit prog \<Rightarrow> unit prog" where
  "throttled pass =
     try_finally
       (try_catch pass (\<lambda>error. Log_error ''Observer callback failed'' error))
       (modify (\<lambda>s. s\<lparr>throttleTimer := None\<rparr>))"

text \<open>The function handed to \<^verbatim>\<open>new MutationObserver\<close>.\<close>

definition observer_callback :: "unit prog" where
  "observer_callback =
     try_catch
       (andThen (gets throttleTimer) (\<lambda>t.
          if timer_set t then ret ()
          else andThen (setTimeout ThrottledPass OBSERVER_THROTTLE_MS) (\<lambda>n.
               modify (\<lambda>s. s\<lparr>throttleTimer := Some n\<rparr>))))
       (\<lambda>error. Log_error ''Observer throttle failed'' error)"

definition new_MutationObserver :: "nat prog" where
  "new_MutationObserver =
     (\<lambda>s. (Inr (next_handle s),
            s\<lparr>constructed := constructed s @ [next_handle s],
              next_handle := Suc (next_handle s)\<rparr>))"

text \<open>\<^verbatim>\<open>observer.observe(document.body, ...)\<close>; observing the same target again adds nothing.\<close>

definition observe_body :: "nat \<Rightarrow> unit prog" where
  "observe_body m =
     modify (\<lambda>s. s\<lparr>observing := (if m \<in> set (observing s) then observing s else observing s @ [m])\<rparr>)"

definition observeDOM :: "unit prog" where
  "observeDOM =
     try_catch
       (andThen (gets observer) (\<lambda>ob.
          case ob of
            Some m \<Rightarrow> ret ()
          | None \<Rightarrow>
              andThen new_MutationObserver (\<lambda>m.
              andThen (modify (\<lambda>s. s\<lparr>observer := Some m\<rparr>)) (\<lambda>u.
              observe_body m))))
       (\<lambda>error. Log_error ''Failed to setup DOM observer'' error)"

text \<open>The handler subscribed to the navigation event, and the subscription itself.\<close>

definition navigated_handler :: "unit prog" where
  "navigated_handler =
     try_catch
       (andThen (setTimeout NavigationPass 500) (\<lambda>n. ret ()))
       (\<lambda>error. Log_error ''Navigation event handler failed'' error)"

definition navigatedEvent_add_handler :: "env \<Rightarrow> unit prog" where
  "navigatedEvent_add_handler h =
     (case navigatedEvent_add h of
        Some e \<Rightarrow> throw e
      | None \<Rightarrow> modify (\<lambda>s. s\<lparr>nav_handlers := Suc (nav_handlers s)\<rparr>))"

text \<open>
  \<^verbatim>\<open>onInit\<close>: one \<^verbatim>\<open>try\<close> around the five steps, then \<^verbatim>\<open>return Promise.resolve()\<close>. The
  outcome \<open>Inl\<close> would be a rejected promise.
\<close>

definition onInit :: "env \<Rightarrow> unit prog" where
  "onInit h =
     andThen
       (try_catch
          (andThen (Log_info ''Initialized'') (\<lambda>u.
           andThen (loadConfig h) (\<lambda>u.
           andThen injectStyles (\<lambda>u.
           andThen (applyHighlighting h) (\<lambda>u.
           andThen (navigatedEvent_add_handler h) (\<lambda>u.
           observeDOM))))))
          (\<lambda>error. Log_error ''Initialization failed'' error))
       (\<lambda>u. ret ())"

text \<open>
  The event loop. A batch of mutation records calls the callback of every observer that
  observes the body; a timeout that fires leaves the table of pending timeouts and runs
  its callback; a navigation calls every subscribed handler. A callback's outcome goes
  nowhere: the state it leaves is what remains.
\<close>

datatype event = Mutations | Timeout nat | Navigated

definition timer_body :: "env \<Rightarrow> timer_callback \<Rightarrow> unit prog" where
  "timer_body h cb = (case cb of ThrottledPass \<Rightarrow> throttled (applyHighlighting h)
                               | NavigationPass \<Rightarrow> applyHighlighting h)"

fun dispatch :: "env \<Rightarrow> event \<Rightarrow> state \<Rightarrow> state" where
  "dispatch h Mutations s = fold (\<lambda>m t. snd (observer_callback t)) (observing s) s"
| "dispatch h (Timeout n) s =
     (case find (\<lambda>t. fst t = n) (timers s) of
        None \<Rightarrow> s
      | Some t \<Rightarrow> snd (timer_body h (fst (snd t))
                         (s\<lparr>timers := filter (\<lambda>t. fst t \<noteq> n) (timers s)\<rparr>)))"
| "dispatch h Navigated s = ((\<lambda>t. snd (navigated_handler t)) ^^ nav_handlers s) s"

text \<open>A new instance on a page: the field initialisers of the class.\<close>

definition new_instance :: "env \<Rightarrow> state \<Rightarrow> state" where
  "new_instance h page =
     page\<lparr>styleElement := None, config := DEFAULT_NAV_CONFIG h, observer := None,
          throttleTimer := None\<rparr>"

subsection \<open>Auxiliary notions for the statements\<close>

text \<open>
  What the callback of \<^verbatim>\<open>forEach\<close> leaves of one link's element, as a function of the
  element (\<open>link_callback_classify\<close> below proves that this is what \<open>link_callback\<close> does).
\<close>

definition classify :: "env \<Rightarrow> string \<Rightarrow> element \<Rightarrow> element" where
  "classify h currentSiteName el =
     (let target = (case href el of Some v \<Rightarrow> v | None \<Rightarrow> '''');
          linkSiteName = extractSiteName (toLowerCase h target);
          kept = filter (\<lambda>c. c \<noteq> ''hub-nav-current-site'' \<and> c \<noteq> ''hub-nav-other-site'') (classList el)
      in el\<lparr>classList :=
           (if linkSiteName \<noteq> '''' \<and> linkSiteName = currentSiteName
            then kept @ [''hub-nav-current-site'']
            else if indexOf target ''/sites/'' > - 1 then kept @ [''hub-nav-other-site'']
            else kept)\<rparr>)"

text \<open>
  The per-field merge in the words of the specification: each of the four fields is the
  field of the JSON value when that is truthy, and the built-in default's otherwise. A
  value without such a field (anything but an object that has it) has \<^verbatim>\<open>undefined\<close> there.
\<close>

definition json_field :: "jsval \<Rightarrow> string \<Rightarrow> jsval" where
  "json_field j k = (case get_property j k of Inr v \<Rightarrow> v | Inl e \<Rightarrow> Undefined)"

definition merged :: "INavConfig \<Rightarrow> jsval \<Rightarrow> INavConfig" where
  "merged d j =
     \<lparr>currentSiteColor =
        (if truthy (json_field j ''currentSiteColor'') then json_field j ''currentSiteColor''
         else currentSiteColor d),
      currentSiteFontWeight =
        (if truthy (json_field j ''currentSiteFontWeight'') then json_field j ''currentSiteFontWeight''
         else currentSiteFontWeight d),
      otherSiteColor =
        (if truthy (json_field j ''otherSiteColor'') then json_field j ''otherSiteColor''
         else otherSiteColor d),
      otherSiteFontWeight =
        (if truthy (json_field j ''otherSiteFontWeight'') then json_field j ''otherSiteFontWeight''
         else otherSiteFontWeight d)\<rparr>"

text \<open>
  The injected style nodes of the document: the children of \<^verbatim>\<open>document.head\<close> that carry
  \<^verbatim>\<open>data-hub-nav-customizer="true"\<close>. A page is well formed for the instance when the
  handles in the head are in use (a new element gets a handle that is not among them) and
  the injected nodes are none, or the one node the instance holds in \<^verbatim>\<open>_styleElement\<close>.
\<close>

definition injected :: "state \<Rightarrow> nat list" where
  "injected s =
     filter (\<lambda>n. (''data-hub-nav-customizer'', ''true'') \<in> set (attributes (nodes s n))) (head s)"

definition style_inv :: "state \<Rightarrow> bool" where
  "style_inv s =
     (list_all (\<lambda>n. n < next_handle s) (head s) \<and>
      (injected s = [] \<or> (case styleElement s of Some n \<Rightarrow> injected s = [n] | None \<Rightarrow> False)))"


text \<open>
  The pending throttle timeouts, by handle. The table of timeouts is in step with the
  marker \<^verbatim>\<open>_throttleTimer\<close> when its handles are distinct and in use, and the pending
  throttle timeouts are none while the marker is \<^verbatim>\<open>null\<close> (Idle), and otherwise the one,
  positive, handle the marker holds (ScheduledRun).
\<close>

definition throttle_timers :: "state \<Rightarrow> nat list" where
  "throttle_timers s = map fst (filter (\<lambda>t. fst (snd t) = ThrottledPass) (timers s))"

definition throttle_inv :: "state \<Rightarrow> bool" where
  "throttle_inv s =
     (list_all (\<lambda>t. fst t \<le> next_handle s) (timers s) \<and>
      distinct (map fst (timers s)) \<and>
      (case throttleTimer s of
         None \<Rightarrow> throttle_timers s = []
       | Some n \<Rightarrow> n \<noteq> 0 \<and> throttle_timers s = [n]))"

text \<open>A host and a page to evaluate on: the site \<^verbatim>\<open>int\<close>, two navigation links.\<close>

definition demo_env :: env where
  "demo_env =
     \<lparr>DEFAULT_NAV_CONFIG =
        \<lparr>currentSiteColor = Str ''#0078d4'', currentSiteFontWeight = Str ''600'',
         otherSiteColor = Str ''#323130'', otherSiteFontWeight = Str ''400''\<rparr>,
      toLowerCase = ascii_toLowerCase,
      absoluteUrl = Inr ''https://contoso.sharepoint.com/sites/Int/'',
      configPath = None,
      spHttpClient_get =
        (\<lambda>url. Inr \<lparr>ok = True, json = Inr (Obj [(''currentSiteColor'', Str ''#ff0000'')])\<rparr>),
      navigatedEvent_add = None\<rparr>"

definition demo_page :: state where
  "demo_page =
     \<lparr>styleElement = None,
      config = DEFAULT_NAV_CONFIG demo_env,
      observer = None,
      throttleTimer = None,
      elements =
        (\<lambda>n. if n = 0
              then \<lparr>href = Some ''https://contoso.sharepoint.com/sites/int/SitePages/Home.aspx'',
                    classList = [''ms-Link'']\<rparr>
              else if n = 1
              then \<lparr>href = Some ''https://contoso.sharepoint.com/sites/other/SitePages/Home.aspx'',
                    classList = [''ms-Link'', ''hub-nav-current-site'']\<rparr>
              else \<lparr>href = None, classList = []\<rparr>),
      querySelectorAll = (\<lambda>selector. [0, 1]),
      head = [],
      nodes = (\<lambda>n. \<lparr>attributes = [], innerHTML = None\<rparr>),
      constructed = [],
      observing = [],
      timers = [],
      nav_handlers = 0,
      next_handle = 2,
      logged = [],
      passes = 0\<rparr>"

section \<open>Statements: unfolding\<close>

text \<open>The definitions of the statement combinators, for unfolding.\<close>

lemmas prog_defs = ret_def throw_def lift_def gets_def modify_def andThen_def try_catch_def
  try_finally_def Log_info_def Log_warn_def Log_error_def

section \<open>Site-name extraction (C1)\<close>

text \<open>What \<open>split\<close> returns, by where the separator first occurs.\<close>

lemma split_from_absent:
  "sep \<noteq> [] \<Longrightarrow> \<forall>p q. s \<noteq> p @ sep @ q \<Longrightarrow> split_from sep acc s = [acc @ s]"
proof (induction s arbitrary: acc)
  case Nil
  then show ?case by simp
next
  case (Cons c cs)
  have np: "\<not> prefix sep (c # cs)"
  proof
    assume "prefix sep (c # cs)"
    then obtain q where "c # cs = sep @ q" by (auto simp: prefix_def)
    then have "c # cs = [] @ sep @ q" by simp
    with Cons.prems(2) show False by blast
  qed
  have "\<forall>p q. cs \<noteq> p @ sep @ q"
  proof (intro allI notI)
    fix p q assume "cs = p @ sep @ q"
    then have "c # cs = (c # p) @ sep @ q" by simp
    with Cons.prems(2) show False by blast
  qed
  with Cons.IH[OF Cons.prems(1)] have "split_from sep (acc @ [c]) cs = [(acc @ [c]) @ cs]" by blast
  with np show ?case by simp
qed

lemma split_from_first:
  "sep \<noteq> [] \<Longrightarrow> \<forall>p' q'. p @ sep @ q = p' @ sep @ q' \<longrightarrow> length p \<le> length p'
    \<Longrightarrow> split_from sep acc (p @ sep @ q) = (acc @ p) # split_from sep [] q"
proof (induction p arbitrary: acc)
  case Nil
  then obtain c cs where sc: "sep @ q = c # cs" by (cases sep) auto
  have pre: "prefix sep (c # cs)" unfolding sc[symmetric] by simp
  have "drop (length sep) (c # cs) = q" unfolding sc[symmetric] by simp
  with pre Nil.prems(1) have "split_from sep acc (c # cs) = acc # split_from sep [] q" by simp
  then show ?case unfolding sc[symmetric] by simp
next
  case (Cons c p)
  have np: "\<not> prefix sep (c # p @ sep @ q)"
  proof
    assume "prefix sep (c # p @ sep @ q)"
    then obtain q' where "c # p @ sep @ q = sep @ q'" by (auto simp: prefix_def)
    then have "(c # p) @ sep @ q = [] @ sep @ q'" by simp
    with Cons.prems(2) have "length (c # p) \<le> length ([]::string)" by blast
    then show False by simp
  qed
  have "\<forall>p' q'. p @ sep @ q = p' @ sep @ q' \<longrightarrow> length p \<le> length p'"
  proof (intro allI impI)
    fix p' q' assume "p @ sep @ q = p' @ sep @ q'"
    then have "(c # p) @ sep @ q = (c # p') @ sep @ q'" by simp
    with Cons.prems(2) have "length (c # p) \<le> length (c # p')" by blast
    then show "length p \<le> length p'" by simp
  qed
  with Cons.IH[OF Cons.prems(1)] have "split_from sep (acc @ [c]) (p @ sep @ q) = ((acc @ [c]) @ p) # split_from sep [] q" by blast
  with np show ?case by simp
qed

lemma split_from_head:
  "sep \<noteq> [] \<Longrightarrow> \<exists>m rest. split_from sep acc s = (acc @ m) # rest \<and> (s = m \<or> (\<exists>q. s = m @ sep @ q))"
proof (induction s arbitrary: acc)
  case Nil
  then show ?case by simp
next
  case (Cons c cs)
  show ?case
  proof (cases "prefix sep (c # cs)")
    case True
    then obtain q where q: "c # cs = [] @ sep @ q" by (auto simp: prefix_def)
    from True Cons.prems have "split_from sep acc (c # cs) = (acc @ []) # split_from sep [] (drop (length sep) (c # cs))"
      by simp
    with q show ?thesis by blast
  next
    case False
    from Cons.IH[OF Cons.prems, of "acc @ [c]"] obtain m rest where
      m: "split_from sep (acc @ [c]) cs = ((acc @ [c]) @ m) # rest" "cs = m \<or> (\<exists>q. cs = m @ sep @ q)" by blast
    from m(2) have "c # cs = c # m \<or> (\<exists>q. c # cs = (c # m) @ sep @ q)" by auto
    moreover from m(1) False have "split_from sep acc (c # cs) = (acc @ (c # m)) # rest" by simp
    ultimately show ?thesis by blast
  qed
qed

lemma split_from_single_head:
  "\<exists>rest. split_from [d] acc s = (acc @ takeWhile (\<lambda>c. c \<noteq> d) s) # rest"
proof (induction s arbitrary: acc)
  case Nil
  then show ?case by simp
next
  case (Cons c cs)
  show ?case
  proof (cases "c = d")
    case True
    then show ?thesis by simp
  next
    case False
    from Cons.IH[of "acc @ [c]"] obtain rest where
      "split_from [d] (acc @ [c]) cs = ((acc @ [c]) @ takeWhile (\<lambda>c. c \<noteq> d) cs) # rest" by blast
    with False show ?thesis by simp
  qed
qed

lemma extractSiteName_absent:
  assumes "\<forall>p q. u \<noteq> p @ ''/sites/'' @ q"
  shows "extractSiteName u = ''''"
proof -
  have "split_from ''/sites/'' [] u = [[] @ u]"
    by (rule split_from_absent) (use assms in simp_all)
  then show ?thesis by (simp add: extractSiteName_def split_def at_index_def)
qed

lemma segment_of_piece:
  assumes "q = m \<or> (\<exists>q'. q = m @ ''/sites/'' @ q')"
  shows "(if m \<noteq> [] then takeWhile (\<lambda>c. c \<noteq> CHR ''/'') m else []) = takeWhile (\<lambda>c. c \<noteq> CHR ''/'') q"
  using assms by (auto simp: takeWhile_append)

lemma extractSiteName_present:
  assumes "u = p @ ''/sites/'' @ q"
      and "\<forall>p' q'. u = p' @ ''/sites/'' @ q' \<longrightarrow> length p \<le> length p'"
  shows "extractSiteName u = takeWhile (\<lambda>c. c \<noteq> CHR ''/'') q"
proof -
  have 1: "split_from ''/sites/'' [] u = ([] @ p) # split_from ''/sites/'' [] q"
    unfolding assms(1) by (rule split_from_first) (use assms in simp_all)
  obtain m rest where m: "split_from ''/sites/'' [] q = ([] @ m) # rest"
    "q = m \<or> (\<exists>q'. q = m @ ''/sites/'' @ q')"
    using split_from_head[of "''/sites/''" "[]" q] by auto
  obtain rest' where r: "split_from ''/'' [] m = ([] @ takeWhile (\<lambda>c. c \<noteq> CHR ''/'') m) # rest'"
    using split_from_single_head[of "CHR ''/''" "[]" m] by auto
  have "extractSiteName u = (if m \<noteq> [] then takeWhile (\<lambda>c. c \<noteq> CHR ''/'') m else [])"
    using 1 m(1) r by (simp add: extractSiteName_def split_def at_index_def)
  with segment_of_piece[OF m(2)] show ?thesis by simp
qed

text \<open>
  C1 (as amended). For every string \<open>u\<close> the function receives (both callers pass a
  lower-cased URL, which is how a marker written in any case is found): when \<open>u\<close> holds no
  \<^verbatim>\<open>/sites/\<close>, the result is empty; when \<open>p\<close> is what stands before the first \<^verbatim>\<open>/sites/\<close> and
  \<open>q\<close> what stands behind it, the result is \<open>q\<close> up to, and without, its first \<^verbatim>\<open>/\<close> (all of
  \<open>q\<close> when it has none), whatever follows that slash, be it a path or a query string. A
  query string that follows the site segment with no slash in between is therefore part
  of the result. The two examples of the specification evaluate as it says; a query
  string behind a later slash does not matter; and a URL with capitals yields the site
  name once it is lower-cased.
\<close>

theorem extractSiteName_first_segment:
  "((\<forall>p q. u \<noteq> p @ ''/sites/'' @ q) \<longrightarrow> extractSiteName u = '''') \<and>
   (\<forall>p q. u = p @ ''/sites/'' @ q \<and>
           (\<forall>p' q'. u = p' @ ''/sites/'' @ q' \<longrightarrow> length p \<le> length p')
           \<longrightarrow> extractSiteName u = takeWhile (\<lambda>c. c \<noteq> CHR ''/'') q) \<and>
   extractSiteName ''https://contoso.com/sites/int-team/pages/x.aspx'' = ''int-team'' \<and>
   extractSiteName ''https://contoso.com/teamsite'' = '''' \<and>
   extractSiteName ''https://contoso.com/sites/int-team/pages/x.aspx?web=1'' = ''int-team'' \<and>
   extractSiteName (ascii_toLowerCase ''https://Contoso.com/Sites/Int-Team/Pages/x.aspx'') = ''int-team''"
proof (intro conjI allI impI)
  show "extractSiteName u = ''''" if "\<forall>p q. u \<noteq> p @ ''/sites/'' @ q"
    using that by (rule extractSiteName_absent)
  show "extractSiteName u = takeWhile (\<lambda>c. c \<noteq> CHR ''/'') q"
    if "u = p @ ''/sites/'' @ q \<and> (\<forall>p' q'. u = p' @ ''/sites/'' @ q' \<longrightarrow> length p \<le> length p')" for p q
    using that extractSiteName_present by blast
  show "extractSiteName ''https://contoso.com/sites/int-team/pages/x.aspx'' = ''int-team''"
    by (simp add: extractSiteName_def split_def at_index_def)
  show "extractSiteName ''https://contoso.com/teamsite'' = ''''"
    by (simp add: extractSiteName_def split_def at_index_def)
  show "extractSiteName ''https://contoso.com/sites/int-team/pages/x.aspx?web=1'' = ''int-team''"
    by (simp add: extractSiteName_def split_def at_index_def)
  show "extractSiteName (ascii_toLowerCase ''https://Contoso.com/Sites/Int-Team/Pages/x.aspx'') = ''int-team''"
    by (simp add: extractSiteName_def split_def at_index_def ascii_toLowerCase_def lower_char_def)
qed

text \<open>An instance: the marker first occurs behind \<^verbatim>\<open>x\<close>; and a string without the marker.\<close>

lemma first_at_one:
  "\<forall>p' q'. ''x/sites/ab/c?d'' = p' @ ''/sites/'' @ q' \<longrightarrow> length ''x'' \<le> length p'"
proof (intro allI impI)
  fix p' q' :: string
  assume a: "''x/sites/ab/c?d'' = p' @ ''/sites/'' @ q'"
  show "length ''x'' \<le> length p'"
  proof (cases p')
    case Nil
    with a show ?thesis by simp
  next
    case (Cons c cs)
    then show ?thesis by simp
  qed
qed

theorem extractSiteName_first_segment_witness:
  "extractSiteName ''x/sites/ab/c?d'' = ''ab'' \<and> extractSiteName ''Sites'' = ''''"
proof -
  have a: "''x/sites/ab/c?d'' = ''x'' @ ''/sites/'' @ ''ab/c?d''" by simp
  have b: "\<forall>p q. ''Sites'' \<noteq> p @ ''/sites/'' @ q"
  proof (intro allI notI)
    fix p q :: string
    assume "''Sites'' = p @ ''/sites/'' @ q"
    then have "length ''Sites'' = length (p @ ''/sites/'' @ q)" by (rule arg_cong)
    then show False by simp
  qed
  from extractSiteName_first_segment[of "''x/sites/ab/c?d''"] a first_at_one
  have "extractSiteName ''x/sites/ab/c?d'' = takeWhile (\<lambda>c. c \<noteq> CHR ''/'') ''ab/c?d''" by blast
  moreover from extractSiteName_first_segment[of "''Sites''"] b
  have "extractSiteName ''Sites'' = ''''" by blast
  ultimately show ?thesis by simp
qed

text \<open>
  C1 as stated has the result not depend on a query string. Two lower-case URLs that
  differ in nothing but a query string, as the \<^verbatim>\<open>href\<close> of a link may have one: the query
  string stays in what the function returns.
\<close>

theorem extractSiteName_query_counterexample:
  "extractSiteName ''https://contoso.com/sites/int-team?web=1'' = ''int-team?web=1'' \<and>
   extractSiteName ''https://contoso.com/sites/int-team'' = ''int-team''"
  by (simp add: extractSiteName_def split_def at_index_def)

section \<open>Configuration loading (C5, C6)\<close>

text \<open>The ways through \<^verbatim>\<open>_loadConfig\<close>, each with the state it leaves.\<close>

lemma loadConfig_url_throws:
  "absoluteUrl h = Inl e \<Longrightarrow>
   loadConfig h s = (Inr (), s\<lparr>logged := logged s @ [LogError ''Failed to load config'' e]\<rparr>)"
  by (simp add: loadConfig_def prog_defs)

lemma loadConfig_get_rejects:
  "absoluteUrl h = Inr siteUrl \<Longrightarrow> spHttpClient_get h (configUrl h siteUrl) = Inl e \<Longrightarrow>
   loadConfig h s = (Inr (), s\<lparr>logged := logged s @ [LogError ''Failed to load config'' e]\<rparr>)"
  by (simp add: loadConfig_def prog_defs)

lemma loadConfig_not_ok:
  "absoluteUrl h = Inr siteUrl \<Longrightarrow> spHttpClient_get h (configUrl h siteUrl) = Inr resp \<Longrightarrow>
   \<not> ok resp \<Longrightarrow>
   loadConfig h s =
     (Inr (), s\<lparr>logged := logged s @
        [LogWarn (''Config file not found at '' @ configUrl h siteUrl @ '', using defaults'')]\<rparr>)"
  by (simp add: loadConfig_def prog_defs)

lemma loadConfig_json_rejects:
  "absoluteUrl h = Inr siteUrl \<Longrightarrow> spHttpClient_get h (configUrl h siteUrl) = Inr resp \<Longrightarrow>
   ok resp \<Longrightarrow> json resp = Inl e \<Longrightarrow>
   loadConfig h s = (Inr (), s\<lparr>logged := logged s @ [LogError ''Failed to parse config JSON'' e]\<rparr>)"
  by (simp add: loadConfig_def prog_defs)

lemma loadConfig_nullish:
  "absoluteUrl h = Inr siteUrl \<Longrightarrow> spHttpClient_get h (configUrl h siteUrl) = Inr resp \<Longrightarrow>
   ok resp \<Longrightarrow> json resp = Inr j \<Longrightarrow> j = Null \<or> j = Undefined \<Longrightarrow>
   loadConfig h s =
     (Inr (), s\<lparr>logged := logged s @
        [LogError ''Failed to parse config JSON'' (TypeError ''currentSiteColor'')]\<rparr>)"
  by (auto simp: loadConfig_def prog_defs)

lemma get_property_field:
  "j \<noteq> Null \<Longrightarrow> j \<noteq> Undefined \<Longrightarrow> get_property j k = Inr (json_field j k)"
  by (cases j) (simp_all add: json_field_def)

lemma loadConfig_parsed:
  "absoluteUrl h = Inr siteUrl \<Longrightarrow> spHttpClient_get h (configUrl h siteUrl) = Inr resp \<Longrightarrow>
   ok resp \<Longrightarrow> json resp = Inr j \<Longrightarrow> j \<noteq> Null \<Longrightarrow> j \<noteq> Undefined \<Longrightarrow>
   loadConfig h s =
     (Inr (), s\<lparr>config := merged (DEFAULT_NAV_CONFIG h) j,
                logged := logged s @ [LogInfo ''Config loaded from Site Assets'']\<rparr>)"
  by (simp add: loadConfig_def prog_defs get_property_field merged_def js_or_def)

lemma merged_nullish: "j = Null \<or> j = Undefined \<Longrightarrow> merged d j = d"
  by (auto simp: merged_def json_field_def)

text \<open>
  C5. When the request resolves with a success status and the body parses to \<open>j\<close>, the
  stored configuration becomes the per-field merge of \<open>j\<close> over the built-in default. The
  value \<^verbatim>\<open>null\<close> has no fields; reading one throws inside the inner \<^verbatim>\<open>try\<close> and the
  configuration stays as it was, which is the merge (all four defaults) when the
  configuration was still the default, as it is on the one load \<^verbatim>\<open>onInit\<close> performs.
\<close>

theorem loadConfig_merges_fields:
  assumes "absoluteUrl h = Inr siteUrl"
      and "spHttpClient_get h (configUrl h siteUrl) = Inr resp"
      and "ok resp"
      and "json resp = Inr j"
      and "j = Null \<or> j = Undefined \<longrightarrow> config s = DEFAULT_NAV_CONFIG h"
  shows "config (snd (loadConfig h s)) = merged (DEFAULT_NAV_CONFIG h) j"
proof (cases "j = Null \<or> j = Undefined")
  case True
  with assms show ?thesis by (simp add: loadConfig_nullish[OF assms(1-4)] merged_nullish)
next
  case False
  with assms show ?thesis by (simp add: loadConfig_parsed)
qed

text \<open>An override that sets only \<^verbatim>\<open>currentSiteColor\<close>: that colour, and three defaults.\<close>

theorem loadConfig_merges_fields_witness:
  "config (snd (loadConfig demo_env demo_page)) =
     \<lparr>currentSiteColor = Str ''#ff0000'', currentSiteFontWeight = Str ''600'',
      otherSiteColor = Str ''#323130'', otherSiteFontWeight = Str ''400''\<rparr>"
proof -
  have "config (snd (loadConfig demo_env demo_page)) =
          merged (DEFAULT_NAV_CONFIG demo_env) (Obj [(''currentSiteColor'', Str ''#ff0000'')])"
    by (rule loadConfig_merges_fields[where siteUrl = "''https://contoso.sharepoint.com/sites/Int/''"
          and resp = "\<lparr>ok = True, json = Inr (Obj [(''currentSiteColor'', Str ''#ff0000'')])\<rparr>"])
       (simp_all add: demo_env_def)
  then show ?thesis by (simp add: merged_def json_field_def demo_env_def)
qed

text \<open>
  C6. When the request rejects, or resolves with a non-success status, or its body does not
  parse, \<^verbatim>\<open>_loadConfig\<close> completes without throwing and leaves the configuration as it
  was; indeed it changes nothing but the log. On a new instance that configuration is the
  built-in default.
\<close>

theorem loadConfig_failure_keeps_config:
  assumes "absoluteUrl h = Inr siteUrl"
      and "(\<exists>e. spHttpClient_get h (configUrl h siteUrl) = Inl e) \<or>
           (\<exists>resp. spHttpClient_get h (configUrl h siteUrl) = Inr resp \<and> \<not> ok resp) \<or>
           (\<exists>resp e. spHttpClient_get h (configUrl h siteUrl) = Inr resp \<and> ok resp \<and> json resp = Inl e)"
  shows "fst (loadConfig h s) = Inr () \<and>
         config (snd (loadConfig h s)) = config s \<and>
         (snd (loadConfig h s))\<lparr>logged := logged s\<rparr> = s \<and>
         config (snd (loadConfig h (new_instance h s))) = DEFAULT_NAV_CONFIG h"
  using assms
  by (auto simp: loadConfig_get_rejects loadConfig_not_ok loadConfig_json_rejects new_instance_def)

text \<open>A 404 on an instance whose configuration had been overridden before: it is kept.\<close>

theorem loadConfig_failure_keeps_config_witness:
  "config (snd (loadConfig
      (demo_env\<lparr>spHttpClient_get := (\<lambda>url. Inr \<lparr>ok = False, json = Inl (SyntaxError ''Not Found'')\<rparr>)\<rparr>)
      (demo_page\<lparr>config := merged (DEFAULT_NAV_CONFIG demo_env) (Obj [(''otherSiteColor'', Str ''#00ff00'')])\<rparr>)))
   = merged (DEFAULT_NAV_CONFIG demo_env) (Obj [(''otherSiteColor'', Str ''#00ff00'')])"
proof -
  let ?h = "demo_env\<lparr>spHttpClient_get := (\<lambda>url. Inr \<lparr>ok = False, json = Inl (SyntaxError ''Not Found'')\<rparr>)\<rparr>"
  have a: "absoluteUrl ?h = Inr ''https://contoso.sharepoint.com/sites/Int/''"
    by (simp add: demo_env_def)
  have b: "(\<exists>e. spHttpClient_get ?h (configUrl ?h ''https://contoso.sharepoint.com/sites/Int/'') = Inl e) \<or>
           (\<exists>resp. spHttpClient_get ?h (configUrl ?h ''https://contoso.sharepoint.com/sites/Int/'') = Inr resp \<and> \<not> ok resp) \<or>
           (\<exists>resp e. spHttpClient_get ?h (configUrl ?h ''https://contoso.sharepoint.com/sites/Int/'') = Inr resp \<and> ok resp \<and> json resp = Inl e)"
    by simp
  from loadConfig_failure_keeps_config[OF a b] show ?thesis by simp
qed

text \<open>
  On every way through, the configuration afterwards is the one before or a complete
  merge.
\<close>

lemma loadConfig_never_partial:
  "fst (loadConfig h s) = Inr () \<and>
   (config (snd (loadConfig h s)) = config s \<or>
    (\<exists>j. config (snd (loadConfig h s)) = merged (DEFAULT_NAV_CONFIG h) j))"
proof (cases "absoluteUrl h")
  case (Inl e)
  then show ?thesis by (simp add: loadConfig_url_throws)
next
  case u: (Inr siteUrl)
  show ?thesis
  proof (cases "spHttpClient_get h (configUrl h siteUrl)")
    case (Inl e)
    with u show ?thesis by (simp add: loadConfig_get_rejects)
  next
    case r: (Inr resp)
    show ?thesis
    proof (cases "ok resp")
      case False
      with u r show ?thesis by (simp add: loadConfig_not_ok)
    next
      case True
      show ?thesis
      proof (cases "json resp")
        case (Inl e)
        with u r True show ?thesis by (simp add: loadConfig_json_rejects)
      next
        case j: (Inr j)
        show ?thesis
        proof (cases "j = Null \<or> j = Undefined")
          case True
          with u r \<open>ok resp\<close> j show ?thesis by (simp add: loadConfig_nullish[OF u r \<open>ok resp\<close> j])
        next
          case False
          with u r \<open>ok resp\<close> j have "config (snd (loadConfig h s)) = merged (DEFAULT_NAV_CONFIG h) j"
            by (simp add: loadConfig_parsed)
          moreover from False u r \<open>ok resp\<close> j have "fst (loadConfig h s) = Inr ()"
            by (simp add: loadConfig_parsed)
          ultimately show ?thesis by blast
        qed
      qed
    qed
  qed
qed

section \<open>Style injection (C7)\<close>

text \<open>
  The state \<^verbatim>\<open>_injectStyles\<close> leaves, when the template renders and when a conversion in
  it throws; it never throws itself.
\<close>

lemma template_cases: "template c = Inr c \<or> (\<exists>e. template c = Inl e)"
  by (simp add: template_def)

lemma injectStyles_rendered:
  "template (config s) = Inr c \<Longrightarrow>
   injectStyles s =
     (Inr (),
      s\<lparr>styleElement := Some (next_handle s),
        head := removeAll (next_handle s)
                  (case styleElement s of Some n \<Rightarrow> removeAll n (head s) | None \<Rightarrow> head s)
                @ [next_handle s],
        nodes := (nodes s)(next_handle s :=
                  \<lparr>attributes = [(''data-hub-nav-customizer'', ''true'')], innerHTML = Some c\<rparr>),
        next_handle := Suc (next_handle s)\<rparr>)"
  by (cases "styleElement s")
     (simp_all add: injectStyles_def remove_previous_def node_remove_def createElement_style_def
        setAttribute_def set_innerHTML_def head_appendChild_def prog_defs)

lemma injectStyles_template_throws:
  "template (config s) = Inl e \<Longrightarrow>
   injectStyles s =
     (Inr (),
      s\<lparr>styleElement := Some (next_handle s),
        head := (case styleElement s of Some n \<Rightarrow> removeAll n (head s) | None \<Rightarrow> head s),
        nodes := (nodes s)(next_handle s :=
                  \<lparr>attributes = [(''data-hub-nav-customizer'', ''true'')], innerHTML = None\<rparr>),
        next_handle := Suc (next_handle s),
        logged := logged s @ [LogError ''Failed to inject styles'' e]\<rparr>)"
  by (cases "styleElement s")
     (simp_all add: injectStyles_def remove_previous_def node_remove_def createElement_style_def
        setAttribute_def set_innerHTML_def head_appendChild_def prog_defs)

lemma injectStyles_total: "fst (injectStyles s) = Inr ()"
  using template_cases[of "config s"]
  by (auto simp: injectStyles_rendered injectStyles_template_throws)

lemma injectStyles_config: "config (snd (injectStyles s)) = config s"
  using template_cases[of "config s"]
  by (auto simp: injectStyles_rendered injectStyles_template_throws)

lemma remove_previous_result:
  "remove_previous s =
     (Inr (), s\<lparr>head := (case styleElement s of Some n \<Rightarrow> removeAll n (head s) | None \<Rightarrow> head s)\<rparr>)"
  by (cases "styleElement s") (simp_all add: remove_previous_def node_remove_def prog_defs)

lemma filter_removeAll_singleton:
  "filter P xs = [n] \<Longrightarrow> filter P (removeAll n xs) = []"
proof -
  assume a: "filter P xs = [n]"
  have "filter P (removeAll n xs) = removeAll n (filter P xs)"
    by (induction xs) auto
  with a show ?thesis by simp
qed

lemma filter_removeAll_empty:
  "filter P xs = [] \<Longrightarrow> filter P (removeAll n xs) = []"
  by (induction xs) (auto split: if_splits)

lemma injected_after_removal:
  assumes "style_inv s"
  shows "injected (snd (remove_previous s)) = []"
proof (cases "styleElement s")
  case None
  with assms show ?thesis by (simp add: remove_previous_result style_inv_def injected_def)
next
  case (Some n)
  with assms show ?thesis
    by (auto simp: remove_previous_result style_inv_def injected_def
        filter_removeAll_singleton filter_removeAll_empty)
qed

lemma removeAll_fresh: "list_all (\<lambda>n. n < (k::nat)) xs \<Longrightarrow> removeAll k xs = xs"
  by (induction xs) auto

lemma list_all_removeAll: "list_all P xs \<Longrightarrow> list_all P (removeAll n xs)"
  by (induction xs) auto

lemma filter_fresh_cong:
  "list_all (\<lambda>n. n < (k::nat)) xs \<Longrightarrow> filter (\<lambda>n. n \<noteq> k \<longrightarrow> P n) xs = filter P xs"
  by (induction xs) auto

lemma rest_fresh:
  assumes "style_inv s"
  shows "list_all (\<lambda>n. n < next_handle s)
           (case styleElement s of Some n \<Rightarrow> removeAll n (head s) | None \<Rightarrow> head s)"
  using assms by (auto simp: style_inv_def list_all_removeAll split: option.splits)

lemma rest_not_injected:
  assumes "style_inv s"
  shows "filter (\<lambda>n. (''data-hub-nav-customizer'', ''true'') \<in> set (attributes (nodes s n)))
           (case styleElement s of Some n \<Rightarrow> removeAll n (head s) | None \<Rightarrow> head s) = []"
  using injected_after_removal[OF assms] by (simp add: remove_previous_result injected_def)

lemma injected_after_injection:
  assumes "style_inv s" and "template (config s) = Inr c"
  shows "injected (snd (injectStyles s)) = [next_handle s]"
proof -
  let ?rest = "case styleElement s of Some n \<Rightarrow> removeAll n (head s) | None \<Rightarrow> head s"
  let ?P = "\<lambda>n. (''data-hub-nav-customizer'', ''true'') \<in> set (attributes (nodes s n))"
  note fresh = rest_fresh[OF assms(1)]
  have "injected (snd (injectStyles s)) =
          filter (\<lambda>n. n \<noteq> next_handle s \<longrightarrow> ?P n) ?rest @ [next_handle s]"
    by (simp add: injectStyles_rendered[OF assms(2)] injected_def removeAll_fresh[OF fresh])
  also have "filter (\<lambda>n. n \<noteq> next_handle s \<longrightarrow> ?P n) ?rest = filter ?P ?rest"
    by (rule filter_fresh_cong[OF fresh])
  finally show ?thesis using rest_not_injected[OF assms(1)] by simp
qed

lemma injected_after_failed_injection:
  assumes "style_inv s" and "template (config s) = Inl e"
  shows "injected (snd (injectStyles s)) = []"
proof -
  let ?rest = "case styleElement s of Some n \<Rightarrow> removeAll n (head s) | None \<Rightarrow> head s"
  let ?P = "\<lambda>n. (''data-hub-nav-customizer'', ''true'') \<in> set (attributes (nodes s n))"
  note fresh = rest_fresh[OF assms(1)]
  have "injected (snd (injectStyles s)) = filter (\<lambda>n. n \<noteq> next_handle s \<longrightarrow> ?P n) ?rest"
    by (simp add: injectStyles_template_throws[OF assms(2)] injected_def)
  also have "\<dots> = filter ?P ?rest"
    by (rule filter_fresh_cong[OF fresh])
  finally show ?thesis using rest_not_injected[OF assms(1)] by simp
qed

lemma style_inv_injectStyles:
  assumes "style_inv s"
  shows "style_inv (snd (injectStyles s))"
proof -
  let ?rest = "case styleElement s of Some n \<Rightarrow> removeAll n (head s) | None \<Rightarrow> head s"
  note fresh = rest_fresh[OF assms]
  have wide: "list_all (\<lambda>n. n < Suc (next_handle s)) ?rest"
    using fresh by (auto simp: list_all_iff)
  from template_cases[of "config s"] show ?thesis
  proof
    assume r: "template (config s) = Inr (config s)"
    have "head (snd (injectStyles s)) = ?rest @ [next_handle s]"
      and "next_handle (snd (injectStyles s)) = Suc (next_handle s)"
      and "styleElement (snd (injectStyles s)) = Some (next_handle s)"
      by (simp_all add: injectStyles_rendered[OF r] removeAll_fresh[OF fresh])
    with wide injected_after_injection[OF assms r] show ?thesis
      by (simp add: style_inv_def)
  next
    assume "\<exists>e. template (config s) = Inl e"
    then obtain e where t: "template (config s) = Inl e" by blast
    have "head (snd (injectStyles s)) = ?rest"
      and "next_handle (snd (injectStyles s)) = Suc (next_handle s)"
      by (simp_all add: injectStyles_template_throws[OF t])
    with wide injected_after_failed_injection[OF assms t] show ?thesis
      by (simp add: style_inv_def)
  qed
qed

lemma style_inv_repeated:
  "style_inv s \<Longrightarrow> style_inv (((\<lambda>t. snd (injectStyles t)) ^^ k) s)"
  by (induction k) (simp_all add: style_inv_injectStyles)

lemma config_repeated:
  "config (((\<lambda>t. snd (injectStyles t)) ^^ k) s) = config s"
  by (induction k) (simp_all add: injectStyles_config)

text \<open>
  C7 (as amended). On a well-formed page, \<^verbatim>\<open>_injectStyles\<close> completes without throwing,
  and once its first statement has run no injected style node is left in the document.
  After any number of calls there is at most one injected style node. When the template
  renders (every configuration value converts to a string), a call leaves exactly one,
  the node held in \<^verbatim>\<open>_styleElement\<close>, and so does any positive number of calls. When a
  conversion throws, the call has removed the previous node, logs the error and leaves
  no injected node.
\<close>

theorem injectStyles_singleton:
  assumes "style_inv s"
  shows "fst (injectStyles s) = Inr () \<and>
         injected (snd (remove_previous s)) = [] \<and>
         (\<forall>k. length (injected (((\<lambda>t. snd (injectStyles t)) ^^ k) s)) \<le> 1) \<and>
         (template (config s) = Inr (config s) \<longrightarrow>
            (\<exists>n. injected (snd (injectStyles s)) = [n] \<and>
                 styleElement (snd (injectStyles s)) = Some n) \<and>
            (\<forall>k. length (injected (((\<lambda>t. snd (injectStyles t)) ^^ Suc k) s)) = 1)) \<and>
         (\<forall>e. template (config s) = Inl e \<longrightarrow>
            injected (snd (injectStyles s)) = [] \<and>
            logged (snd (injectStyles s)) = logged s @ [LogError ''Failed to inject styles'' e])"
proof (intro conjI allI impI)
  show "fst (injectStyles s) = Inr ()" by (rule injectStyles_total)
  show "injected (snd (remove_previous s)) = []" by (rule injected_after_removal[OF assms])
  show "length (injected (((\<lambda>t. snd (injectStyles t)) ^^ k) s)) \<le> 1" for k
    using style_inv_repeated[OF assms, of k] by (auto simp: style_inv_def split: option.splits)
next
  assume r: "template (config s) = Inr (config s)"
  show "\<exists>n. injected (snd (injectStyles s)) = [n] \<and> styleElement (snd (injectStyles s)) = Some n"
    using injected_after_injection[OF assms r] by (simp add: injectStyles_rendered[OF r])
  fix k
  let ?t = "((\<lambda>t. snd (injectStyles t)) ^^ k) s"
  have "template (config ?t) = Inr (config s)" using r by (simp add: config_repeated)
  from injected_after_injection[OF style_inv_repeated[OF assms, of k] this]
  show "length (injected (((\<lambda>t. snd (injectStyles t)) ^^ Suc k) s)) = 1" by simp
next
  fix e assume t: "template (config s) = Inl e"
  show "injected (snd (injectStyles s)) = []"
    by (rule injected_after_failed_injection[OF assms t])
  show "logged (snd (injectStyles s)) = logged s @ [LogError ''Failed to inject styles'' e]"
    by (simp add: injectStyles_template_throws[OF t])
qed

text \<open>
  The demonstration page is well formed and its configuration renders; one call and three
  calls leave one node.
\<close>

theorem injectStyles_singleton_witness:
  "style_inv demo_page \<and>
   template (config demo_page) = Inr (config demo_page) \<and>
   injected (snd (injectStyles demo_page)) = [2] \<and>
   length (injected (snd (injectStyles (snd (injectStyles (snd (injectStyles demo_page))))))) = 1"
proof -
  have inv: "style_inv demo_page"
    by (simp add: style_inv_def injected_def demo_page_def)
  have r: "template (config demo_page) = Inr (config demo_page)"
    by (simp add: template_def demo_page_def demo_env_def)
  from injectStyles_singleton[OF inv] r
  have "length (injected (((\<lambda>t. snd (injectStyles t)) ^^ Suc 2) demo_page)) = 1" by blast
  then have three: "length (injected (snd (injectStyles (snd (injectStyles (snd (injectStyles demo_page))))))) = 1"
    by (simp add: numeral_2_eq_2)
  from injectStyles_singleton[OF inv] r obtain n where
    n: "injected (snd (injectStyles demo_page)) = [n]" "styleElement (snd (injectStyles demo_page)) = Some n"
    by blast
  have "styleElement (snd (injectStyles demo_page)) = Some 2"
    unfolding injectStyles_rendered[OF r] by (simp add: demo_page_def)
  with n have "injected (snd (injectStyles demo_page)) = [2]" by simp
  with inv r three show ?thesis by simp
qed

text \<open>
  C7 as stated has exactly one injected style node after every call. Let the
  configuration file be \<^verbatim>\<open>{"currentSiteColor":{"toString":0}}\<close>: the value is truthy, so
  \<^verbatim>\<open>_loadConfig\<close> stores it; it cannot be converted to a string, so the template literal
  in \<^verbatim>\<open>_injectStyles\<close> throws after the new element was created and before it is
  appended. On the demonstration page (which is well formed) the call leaves no injected
  style node, and the error in the log.
\<close>

theorem injectStyles_unrendered_counterexample:
  "style_inv (snd (loadConfig
      (demo_env\<lparr>spHttpClient_get := (\<lambda>url. Inr \<lparr>ok = True,
          json = Inr (Obj [(''currentSiteColor'', Obj [(''toString'', Num (Finite 0))])])\<rparr>)\<rparr>)
      demo_page)) \<and>
   injected (snd (injectStyles (snd (loadConfig
      (demo_env\<lparr>spHttpClient_get := (\<lambda>url. Inr \<lparr>ok = True,
          json = Inr (Obj [(''currentSiteColor'', Obj [(''toString'', Num (Finite 0))])])\<rparr>)\<rparr>)
      demo_page)))) = [] \<and>
   logged (snd (injectStyles (snd (loadConfig
      (demo_env\<lparr>spHttpClient_get := (\<lambda>url. Inr \<lparr>ok = True,
          json = Inr (Obj [(''currentSiteColor'', Obj [(''toString'', Num (Finite 0))])])\<rparr>)\<rparr>)
      demo_page)))) =
     [LogInfo ''Config loaded from Site Assets'',
      LogError ''Failed to inject styles'' (TypeError ''Cannot convert object to primitive value'')]"
proof -
  let ?j = "Obj [(''currentSiteColor'', Obj [(''toString'', Num (Finite 0))])]"
  let ?h = "demo_env\<lparr>spHttpClient_get := (\<lambda>url. Inr \<lparr>ok = True, json = Inr ?j\<rparr>)\<rparr>"
  let ?s = "demo_page\<lparr>config := merged (DEFAULT_NAV_CONFIG ?h) ?j,
                      logged := logged demo_page @ [LogInfo ''Config loaded from Site Assets'']\<rparr>"
  have "loadConfig ?h demo_page = (Inr (), ?s)"
    by (rule loadConfig_parsed[where siteUrl = "''https://contoso.sharepoint.com/sites/Int/''"
          and resp = "\<lparr>ok = True, json = Inr ?j\<rparr>"])
       (simp_all add: demo_env_def)
  then have l: "snd (loadConfig ?h demo_page) = ?s" by simp
  have inv: "style_inv ?s"
    by (simp add: style_inv_def injected_def demo_page_def)
  have t: "template (config ?s) = Inl (TypeError ''Cannot convert object to primitive value'')"
    by (simp add: template_def merged_def json_field_def)
  have "injected (snd (injectStyles ?s)) = []"
    by (rule injected_after_failed_injection[OF inv t])
  moreover have "logged (snd (injectStyles ?s)) =
     [LogInfo ''Config loaded from Site Assets'',
      LogError ''Failed to inject styles'' (TypeError ''Cannot convert object to primitive value'')]"
    unfolding injectStyles_template_throws[OF t] by (simp add: demo_page_def)
  ultimately show ?thesis using inv unfolding l by simp
qed

section \<open>The highlighting pass (C2, C3, C8)\<close>

text \<open>\<open>indexOf\<close> finds the separator exactly when it occurs somewhere.\<close>

lemma indexOf_ge: "indexOf s sep \<ge> - 1"
  by (induction s) (auto simp: Let_def)

lemma indexOf_contains: "(indexOf s sep > - 1) = (\<exists>p q. s = p @ sep @ q)"
proof (induction s)
  case Nil
  then show ?case by auto
next
  case (Cons c cs)
  show ?case
  proof (cases "prefix sep (c # cs)")
    case True
    then obtain q where "c # cs = [] @ sep @ q" by (auto simp: prefix_def)
    then have "\<exists>p q. c # cs = p @ sep @ q" by blast
    with True show ?thesis by simp
  next
    case False
    have "(\<exists>p q. c # cs = p @ sep @ q) = (\<exists>p q. cs = p @ sep @ q)"
    proof
      assume "\<exists>p q. c # cs = p @ sep @ q"
      then obtain p q where pq: "c # cs = p @ sep @ q" by blast
      show "\<exists>p q. cs = p @ sep @ q"
      proof (cases p)
        case Nil
        with pq have "prefix sep (c # cs)" by (simp add: prefix_def)
        with False show ?thesis by simp
      next
        case (Cons d p')
        with pq have "cs = p' @ sep @ q" by simp
        then show ?thesis by blast
      qed
    next
      assume "\<exists>p q. cs = p @ sep @ q"
      then obtain p q where "cs = p @ sep @ q" by blast
      then have "c # cs = (c # p) @ sep @ q" by simp
      then show "\<exists>p q. c # cs = p @ sep @ q" by blast
    qed
    moreover have "(indexOf (c # cs) sep > - 1) = (indexOf cs sep > - 1)"
      using False indexOf_ge[of cs sep] by (auto simp: Let_def)
    ultimately show ?thesis using Cons.IH by simp
  qed
qed

text \<open>
  One link: the callback leaves \<open>classify\<close> of the element and never throws, so the loop
  leaves \<open>classify\<close> of every link of the list and nothing else.
\<close>

lemma classify_idem: "classify h cur (classify h cur el) = classify h cur el"
  by (simp add: classify_def Let_def)

lemma link_callback_classify:
  "link_callback h cur l s = (Inr (), s\<lparr>elements := (elements s)(l := classify h cur (elements s l))\<rparr>)"
  by (simp add: link_callback_def prog_defs classList_remove_def classList_add_def classify_def Let_def)

lemma forEach_links:
  "forEach ls (link_callback h cur) s =
     (Inr (), s\<lparr>elements := fold (\<lambda>l es. es(l := classify h cur (es l))) ls (elements s)\<rparr>)"
  by (induction ls arbitrary: s) (simp_all add: link_callback_classify ret_def andThen_def)

lemma fold_classify:
  "fold (\<lambda>l es. es(l := classify h cur (es l))) ls es x =
     (if x \<in> set ls then classify h cur (es x) else es x)"
  by (induction ls arbitrary: es) (auto simp: classify_idem)

text \<open>The three ways through \<^verbatim>\<open>_applyHighlighting\<close>.\<close>

lemma applyHighlighting_throws:
  "absoluteUrl h = Inl e \<Longrightarrow>
   applyHighlighting h s =
     (Inr (), s\<lparr>passes := Suc (passes s),
                logged := logged s @ [LogError ''Failed to apply highlighting'' e]\<rparr>)"
  by (simp add: applyHighlighting_def prog_defs)

lemma applyHighlighting_no_site:
  "absoluteUrl h = Inr url \<Longrightarrow> extractSiteName (toLowerCase h (replace_trailing_slash url)) = '''' \<Longrightarrow>
   applyHighlighting h s = (Inr (), s\<lparr>passes := Suc (passes s)\<rparr>)"
  by (simp add: applyHighlighting_def prog_defs)

lemma applyHighlighting_site:
  "absoluteUrl h = Inr url \<Longrightarrow> extractSiteName (toLowerCase h (replace_trailing_slash url)) \<noteq> '''' \<Longrightarrow>
   applyHighlighting h s =
     (Inr (), s\<lparr>passes := Suc (passes s),
                elements := fold (\<lambda>l es. es(l := classify h (extractSiteName (toLowerCase h (replace_trailing_slash url))) (es l)))
                  (querySelectorAll s (join NAV_SELECTORS '', '')) (elements s)\<rparr>)"
  by (simp add: applyHighlighting_def forEach_links Let_def ret_def lift_def gets_def modify_def andThen_def try_catch_def)

lemma elements_after_pass:
  assumes "absoluteUrl h = Inr url"
      and "extractSiteName (toLowerCase h (replace_trailing_slash url)) = cur"
      and "cur \<noteq> ''''"
  shows "elements (snd (applyHighlighting h s)) l =
           (if l \<in> set (querySelectorAll s (join NAV_SELECTORS '', ''))
            then classify h cur (elements s l) else elements s l)"
  using assms by (simp add: applyHighlighting_site fold_classify)

lemma querySelectorAll_after_pass:
  "querySelectorAll (snd (applyHighlighting h s)) = querySelectorAll s"
proof (cases "absoluteUrl h")
  case (Inl e)
  then show ?thesis by (simp add: applyHighlighting_throws)
next
  case (Inr url)
  then show ?thesis
    by (cases "extractSiteName (toLowerCase h (replace_trailing_slash url)) = ''''")
       (simp_all add: applyHighlighting_no_site applyHighlighting_site)
qed

text \<open>
  What a pass leaves on a link. Let the page's URL be read without an exception and let
  \<open>currentSite\<close>, the site name of the normalised URL, be non-empty. For every link \<open>l\<close> that
  the selector query returns, with \<open>target\<close> its \<^verbatim>\<open>href\<close> (empty when missing), after one pass:
  the link carries \<^verbatim>\<open>hub-nav-current-site\<close> exactly when the site name extracted from its
  lower-cased target is non-empty and equals \<open>currentSite\<close>; it carries
  \<^verbatim>\<open>hub-nav-other-site\<close> exactly when that is not so and the target, as it is written,
  contains \<^verbatim>\<open>/sites/\<close>; and it never carries both.
\<close>

lemma marks_after_pass:
  assumes "absoluteUrl h = Inr url"
      and "extractSiteName (toLowerCase h (replace_trailing_slash url)) = currentSite"
      and "currentSite \<noteq> ''''"
      and "l \<in> set (querySelectorAll s (join NAV_SELECTORS '', ''))"
      and "target = (case href (elements s l) of Some v \<Rightarrow> v | None \<Rightarrow> '''')"
      and "after = classList (elements (snd (applyHighlighting h s)) l)"
  shows "(''hub-nav-current-site'' \<in> set after) =
           (extractSiteName (toLowerCase h target) \<noteq> '''' \<and>
            extractSiteName (toLowerCase h target) = currentSite) \<and>
         (''hub-nav-other-site'' \<in> set after) =
           (\<not> (extractSiteName (toLowerCase h target) \<noteq> '''' \<and>
               extractSiteName (toLowerCase h target) = currentSite) \<and>
            (\<exists>p q. target = p @ ''/sites/'' @ q)) \<and>
         \<not> (''hub-nav-current-site'' \<in> set after \<and> ''hub-nav-other-site'' \<in> set after)"
proof -
  have "after = classList (classify h currentSite (elements s l))"
    using assms(4,6) elements_after_pass[OF assms(1,2,3)] by simp
  then show ?thesis
    unfolding assms(5) indexOf_contains[symmetric]
    by (auto simp: classify_def Let_def)
qed

text \<open>
  The example of the specification, on the demonstration page, whose site is \<^verbatim>\<open>int\<close>: the
  link to \<^verbatim>\<open>/sites/int/\<close> ends with the current-site marker only, the link to
  \<^verbatim>\<open>/sites/other/\<close> (which carried the current-site marker before) with the other-site
  marker only.
\<close>

lemma demo_site:
  "extractSiteName (toLowerCase demo_env (replace_trailing_slash ''https://contoso.sharepoint.com/sites/Int/'')) = ''int''"
  by (simp add: extractSiteName_def split_def at_index_def demo_env_def ascii_toLowerCase_def lower_char_def
      replace_trailing_slash_def)

lemma two_links_marked:
  "''hub-nav-current-site'' \<in> set (classList (elements (snd (applyHighlighting demo_env demo_page)) 0)) \<and>
   ''hub-nav-other-site'' \<notin> set (classList (elements (snd (applyHighlighting demo_env demo_page)) 0)) \<and>
   ''hub-nav-current-site'' \<notin> set (classList (elements (snd (applyHighlighting demo_env demo_page)) 1)) \<and>
   ''hub-nav-other-site'' \<in> set (classList (elements (snd (applyHighlighting demo_env demo_page)) 1))"
proof -
  have u: "absoluteUrl demo_env = Inr ''https://contoso.sharepoint.com/sites/Int/''"
    by (simp add: demo_env_def)
  have n: "''int'' \<noteq> ''''" by simp
  have q0: "0 \<in> set (querySelectorAll demo_page (join NAV_SELECTORS '', ''))"
    and q1: "1 \<in> set (querySelectorAll demo_page (join NAV_SELECTORS '', ''))"
    by (simp_all add: demo_page_def)
  have t0: "''https://contoso.sharepoint.com/sites/int/SitePages/Home.aspx'' =
              (case href (elements demo_page 0) of Some v \<Rightarrow> v | None \<Rightarrow> '''')"
    and t1: "''https://contoso.sharepoint.com/sites/other/SitePages/Home.aspx'' =
              (case href (elements demo_page 1) of Some v \<Rightarrow> v | None \<Rightarrow> '''')"
    by (simp_all add: demo_page_def)
  have e0: "extractSiteName (toLowerCase demo_env ''https://contoso.sharepoint.com/sites/int/SitePages/Home.aspx'') = ''int''"
    and e1: "extractSiteName (toLowerCase demo_env ''https://contoso.sharepoint.com/sites/other/SitePages/Home.aspx'') = ''other''"
    by (simp_all add: extractSiteName_def split_def at_index_def demo_env_def ascii_toLowerCase_def lower_char_def)
  have c1: "\<exists>p q. ''https://contoso.sharepoint.com/sites/other/SitePages/Home.aspx'' = p @ ''/sites/'' @ q"
    unfolding indexOf_contains[symmetric] by simp
  from marks_after_pass[OF u demo_site n q0 t0 refl] e0
  have "''hub-nav-current-site'' \<in> set (classList (elements (snd (applyHighlighting demo_env demo_page)) 0)) \<and>
        ''hub-nav-other-site'' \<notin> set (classList (elements (snd (applyHighlighting demo_env demo_page)) 0))"
    by simp
  moreover from marks_after_pass[OF u demo_site n q1 t1 refl] e1 c1
  have "''hub-nav-current-site'' \<notin> set (classList (elements (snd (applyHighlighting demo_env demo_page)) 1)) \<and>
        ''hub-nav-other-site'' \<in> set (classList (elements (snd (applyHighlighting demo_env demo_page)) 1))"
    by simp
  ultimately show ?thesis by simp
qed

text \<open>
  C2. The link's site name is taken from the lower-cased \<^verbatim>\<open>href\<close>, but the test that
  decides the other-site marker, \<^verbatim>\<open>href.indexOf('/sites/')\<close>, reads the \<^verbatim>\<open>href\<close> as it is
  written. On the demonstration page, whose site is \<^verbatim>\<open>int\<close>, let link 1 point to
  \<^verbatim>\<open>https://contoso.sharepoint.com/Sites/Other/SitePages/Home.aspx\<close>. The site name
  extracted from it is \<^verbatim>\<open>other\<close>, non-empty and not the current site's, and its lower-cased
  target contains the site-path marker; the pass leaves the link with neither marker,
  where the link to \<^verbatim>\<open>/sites/other/\<close> gets the other-site marker.
\<close>

theorem applyHighlighting_capital_marker_unmarked:
  "extractSiteName (toLowerCase demo_env
      ''https://contoso.sharepoint.com/Sites/Other/SitePages/Home.aspx'') = ''other'' \<and>
   extractSiteName (toLowerCase demo_env
      (replace_trailing_slash ''https://contoso.sharepoint.com/sites/Int/'')) = ''int'' \<and>
   (\<exists>p q. toLowerCase demo_env ''https://contoso.sharepoint.com/Sites/Other/SitePages/Home.aspx''
            = p @ ''/sites/'' @ q) \<and>
   classList (elements (snd (applyHighlighting demo_env
      (demo_page\<lparr>elements := (elements demo_page)
         (1 := \<lparr>href = Some ''https://contoso.sharepoint.com/Sites/Other/SitePages/Home.aspx'',
                 classList = [''ms-Link'']\<rparr>)\<rparr>))) 1) = [''ms-Link'']"
proof -
  let ?page = "demo_page\<lparr>elements := (elements demo_page)
         (1 := \<lparr>href = Some ''https://contoso.sharepoint.com/Sites/Other/SitePages/Home.aspx'',
                 classList = [''ms-Link'']\<rparr>)\<rparr>"
  have u: "absoluteUrl demo_env = Inr ''https://contoso.sharepoint.com/sites/Int/''"
    by (simp add: demo_env_def)
  have n: "''int'' \<noteq> ''''" by simp
  have other: "extractSiteName (toLowerCase demo_env
      ''https://contoso.sharepoint.com/Sites/Other/SitePages/Home.aspx'') = ''other''"
    by (simp add: extractSiteName_def split_def at_index_def demo_env_def ascii_toLowerCase_def
        lower_char_def)
  have low: "\<exists>p q. toLowerCase demo_env ''https://contoso.sharepoint.com/Sites/Other/SitePages/Home.aspx''
            = p @ ''/sites/'' @ q"
    unfolding indexOf_contains[symmetric]
    by (simp add: demo_env_def ascii_toLowerCase_def lower_char_def)
  have raw: "indexOf ''https://contoso.sharepoint.com/Sites/Other/SitePages/Home.aspx'' ''/sites/'' = - 1"
    by simp
  have "elements (snd (applyHighlighting demo_env ?page)) 1 =
          classify demo_env ''int'' (elements ?page 1)"
    using elements_after_pass[OF u demo_site n, of ?page 1] by (simp add: demo_page_def)
  then have "classList (elements (snd (applyHighlighting demo_env ?page)) 1) = [''ms-Link'']"
    using other raw by (simp add: classify_def)
  with other demo_site low show ?thesis by simp
qed

text \<open>
  C3. For every host and every page, a second pass right after a first leaves every
  element, and so every class list, as the first pass left it.
\<close>

theorem applyHighlighting_idempotent:
  "elements (snd (applyHighlighting h (snd (applyHighlighting h s)))) =
   elements (snd (applyHighlighting h s))"
proof (cases "absoluteUrl h")
  case (Inl e)
  then show ?thesis by (simp add: applyHighlighting_throws)
next
  case (Inr url)
  show ?thesis
  proof (cases "extractSiteName (toLowerCase h (replace_trailing_slash url)) = ''''")
    case True
    with Inr show ?thesis by (simp add: applyHighlighting_no_site)
  next
    case False
    show ?thesis
    proof
      fix l
      show "elements (snd (applyHighlighting h (snd (applyHighlighting h s)))) l =
            elements (snd (applyHighlighting h s)) l"
        using elements_after_pass[OF Inr refl False]
        by (simp add: querySelectorAll_after_pass classify_idem)
    qed
  qed
qed

text \<open>The same on the demonstration page.\<close>

theorem applyHighlighting_idempotent_witness:
  "elements (snd (applyHighlighting demo_env (snd (applyHighlighting demo_env demo_page)))) =
   elements (snd (applyHighlighting demo_env demo_page))"
  by (rule applyHighlighting_idempotent)

text \<open>
  C8. When the site name extracted from the normalised current URL is empty, the pass
  returns at once: it changes nothing but the count of passes, so every element keeps its
  class list, markers included.
\<close>

theorem applyHighlighting_aborts_without_site:
  assumes "absoluteUrl h = Inr url"
      and "extractSiteName (toLowerCase h (replace_trailing_slash url)) = ''''"
  shows "applyHighlighting h s = (Inr (), s\<lparr>passes := Suc (passes s)\<rparr>) \<and>
         elements (snd (applyHighlighting h s)) = elements s"
  using assms by (simp add: applyHighlighting_no_site)

text \<open>
  On the root site, which has no \<^verbatim>\<open>/sites/\<close> segment, the demonstration page keeps its
  elements; link 1 keeps the marker it carried.
\<close>

theorem applyHighlighting_aborts_without_site_witness:
  "elements (snd (applyHighlighting (demo_env\<lparr>absoluteUrl := Inr ''https://contoso.sharepoint.com/''\<rparr>) demo_page))
     = elements demo_page \<and>
   classList (elements demo_page 1) = [''ms-Link'', ''hub-nav-current-site'']"
proof -
  have "absoluteUrl (demo_env\<lparr>absoluteUrl := Inr ''https://contoso.sharepoint.com/''\<rparr>)
          = Inr ''https://contoso.sharepoint.com/''"
    by simp
  moreover have "extractSiteName (toLowerCase demo_env (replace_trailing_slash ''https://contoso.sharepoint.com/'')) = ''''"
    by (simp add: extractSiteName_def split_def at_index_def demo_env_def ascii_toLowerCase_def lower_char_def
        replace_trailing_slash_def)
  ultimately show ?thesis
    using applyHighlighting_aborts_without_site[of _ "''https://contoso.sharepoint.com/''" demo_page]
    by (simp add: demo_page_def)
qed

section \<open>Start-up (C9)\<close>

text \<open>
  Each step's own \<^verbatim>\<open>try\<close> covers its whole body, so each completes; what it may change is
  the configuration and the log (\<open>loadConfig\<close>), or the elements, the log and the count of
  passes (\<open>applyHighlighting\<close>).
\<close>

lemma loadConfig_shape:
  "\<exists>c l. loadConfig h s = (Inr (), s\<lparr>config := c, logged := l\<rparr>)"
proof -
  have keep: "\<exists>c l. (Inr (), s\<lparr>logged := x\<rparr>) = (Inr (), s\<lparr>config := c, logged := l\<rparr>)" for x
    by (rule exI[of _ "config s"], rule exI[of _ x]) simp
  show ?thesis
  proof (cases "absoluteUrl h")
    case (Inl e)
    then show ?thesis using keep by (simp add: loadConfig_url_throws)
  next
    case u: (Inr siteUrl)
    show ?thesis
    proof (cases "spHttpClient_get h (configUrl h siteUrl)")
      case (Inl e)
      with u show ?thesis using keep by (simp add: loadConfig_get_rejects)
    next
      case r: (Inr resp)
      show ?thesis
      proof (cases "ok resp")
        case False
        with u r show ?thesis using keep by (simp add: loadConfig_not_ok)
      next
        case True
        show ?thesis
        proof (cases "json resp")
          case (Inl e)
          with u r True show ?thesis using keep by (simp add: loadConfig_json_rejects)
        next
          case j: (Inr j)
          show ?thesis
          proof (cases "j = Null \<or> j = Undefined")
            case True
            then show ?thesis using keep by (simp add: loadConfig_nullish[OF u r \<open>ok resp\<close> j])
          next
            case False
            then show ?thesis by (simp add: loadConfig_parsed[OF u r \<open>ok resp\<close> j]) blast
          qed
        qed
      qed
    qed
  qed
qed

lemma applyHighlighting_shape:
  "\<exists>e l. applyHighlighting h s = (Inr (), s\<lparr>passes := Suc (passes s), elements := e, logged := l\<rparr>)"
proof (cases "absoluteUrl h")
  case (Inl e)
  show ?thesis
    by (rule exI[of _ "elements s"], rule exI[of _ "logged s @ [LogError ''Failed to apply highlighting'' e]"])
       (simp add: applyHighlighting_throws[OF Inl])
next
  case (Inr url)
  show ?thesis
  proof (cases "extractSiteName (toLowerCase h (replace_trailing_slash url)) = ''''")
    case True
    show ?thesis
      by (rule exI[of _ "elements s"], rule exI[of _ "logged s"])
         (simp add: applyHighlighting_no_site[OF Inr True])
  next
    case False
    show ?thesis
      by (rule exI, rule exI[of _ "logged s"]) (simp add: applyHighlighting_site[OF Inr False])
  qed
qed

text \<open>\<^verbatim>\<open>_observeDOM\<close>: with a handle it returns at once, without one it makes and attaches an observer.\<close>

lemma observeDOM_present:
  "observer s = Some m \<Longrightarrow> observeDOM s = (Inr (), s)"
  by (simp add: observeDOM_def prog_defs)

lemma observeDOM_absent:
  "observer s = None \<Longrightarrow>
   observeDOM s =
     (Inr (), s\<lparr>constructed := constructed s @ [next_handle s],
                next_handle := Suc (next_handle s),
                observer := Some (next_handle s),
                observing := (if next_handle s \<in> set (observing s) then observing s
                              else observing s @ [next_handle s])\<rparr>)"
  by (simp add: observeDOM_def new_MutationObserver_def observe_body_def prog_defs)




text \<open>Sequencing after a statement that completes, and \<^verbatim>\<open>try\<close> around one.\<close>

lemma andThen_total: "fst (m s) = Inr () \<Longrightarrow> andThen m f s = f () (snd (m s))"
  by (cases "m s") (simp add: andThen_def)

lemma try_catch_total: "fst (m s) = Inr v \<Longrightarrow> try_catch m handler s = m s"
  by (cases "m s") (simp add: try_catch_def)

lemma try_catch_caught: "m s = (Inl e, s') \<Longrightarrow> try_catch m handler s = handler e s'"
  by (simp add: try_catch_def)

text \<open>A \<^verbatim>\<open>try\<close> whose \<^verbatim>\<open>catch\<close> only logs completes, whatever its body does.\<close>

lemma guarded_total: "fst (try_catch body (\<lambda>error. Log_error msg error) s) = Inr ()"
proof (cases "body s")
  case (Pair r s')
  then show ?thesis by (cases r) (simp_all add: try_catch_def Log_error_def modify_def)
qed

lemma Log_info_total: "fst (Log_info msg s) = Inr ()"
  by (simp add: Log_info_def modify_def)

lemma loadConfig_total: "fst (loadConfig h s) = Inr ()"
  using loadConfig_shape[of h s] by auto

lemma applyHighlighting_total: "fst (applyHighlighting h s) = Inr ()"
  using applyHighlighting_shape[of h s] by auto

lemma observeDOM_total: "fst (observeDOM s) = Inr ()"
  by (cases "observer s") (simp_all add: observeDOM_present observeDOM_absent)

lemmas step_totals = Log_info_total loadConfig_total injectStyles_total applyHighlighting_total
  observeDOM_total

text \<open>The two ways through \<^verbatim>\<open>onInit\<close>: the subscription returns, or it throws.\<close>

lemma onInit_subscribed:
  assumes "navigatedEvent_add h = None"
  shows "onInit h s =
           (Inr (), snd (observeDOM (snd (navigatedEvent_add_handler h
              (snd (applyHighlighting h (snd (injectStyles (snd (loadConfig h
                (snd (Log_info ''Initialized'' s))))))))))))"
proof -
  have sub: "fst (navigatedEvent_add_handler h t) = Inr ()" for t
    using assms by (simp add: navigatedEvent_add_handler_def modify_def)
  show ?thesis
    unfolding onInit_def
    by (simp add: andThen_total try_catch_total[where v = "()"] step_totals sub ret_def)
qed

lemma onInit_subscription_throws:
  assumes "navigatedEvent_add h = Some x"
  shows "onInit h s =
           (Inr (), snd (Log_error ''Initialization failed'' x
              (snd (applyHighlighting h (snd (injectStyles (snd (loadConfig h
                (snd (Log_info ''Initialized'' s))))))))))"
proof -
  let ?s3 = "snd (applyHighlighting h (snd (injectStyles (snd (loadConfig h
                (snd (Log_info ''Initialized'' s)))))))"
  let ?body = "andThen (Log_info ''Initialized'') (\<lambda>u.
           andThen (loadConfig h) (\<lambda>u.
           andThen injectStyles (\<lambda>u.
           andThen (applyHighlighting h) (\<lambda>u.
           andThen (navigatedEvent_add_handler h) (\<lambda>u.
           observeDOM)))))"
  have "?body s = (Inl x, ?s3)"
    using assms
    by (simp add: andThen_total step_totals)
       (simp add: andThen_def navigatedEvent_add_handler_def throw_def)
  then have "try_catch ?body (\<lambda>error. Log_error ''Initialization failed'' error) s =
               Log_error ''Initialization failed'' x ?s3"
    by (rule try_catch_caught)
  moreover from this
  have "fst (try_catch ?body (\<lambda>error. Log_error ''Initialization failed'' error) s) = Inr ()"
    by (simp add: Log_error_def modify_def)
  then have "onInit h s =
      ret () (snd (try_catch ?body (\<lambda>error. Log_error ''Initialization failed'' error) s))"
    unfolding onInit_def by (rule andThen_total)
  ultimately show ?thesis by (simp add: ret_def)
qed

text \<open>What the steps and the log entries leave alone.\<close>

lemma loadConfig_keeps:
  "observer (snd (loadConfig h s)) = observer s"
  "constructed (snd (loadConfig h s)) = constructed s"
  "observing (snd (loadConfig h s)) = observing s"
  "timers (snd (loadConfig h s)) = timers s"
  "throttleTimer (snd (loadConfig h s)) = throttleTimer s"
  "nav_handlers (snd (loadConfig h s)) = nav_handlers s"
  "next_handle (snd (loadConfig h s)) = next_handle s"
proof -
  obtain c l where "loadConfig h s = (Inr (), s\<lparr>config := c, logged := l\<rparr>)"
    using loadConfig_shape by blast
  then show "observer (snd (loadConfig h s)) = observer s"
    "constructed (snd (loadConfig h s)) = constructed s"
    "observing (snd (loadConfig h s)) = observing s"
    "timers (snd (loadConfig h s)) = timers s"
    "throttleTimer (snd (loadConfig h s)) = throttleTimer s"
    "nav_handlers (snd (loadConfig h s)) = nav_handlers s"
    "next_handle (snd (loadConfig h s)) = next_handle s"
    by simp_all
qed

lemma applyHighlighting_keeps:
  "observer (snd (applyHighlighting h s)) = observer s"
  "constructed (snd (applyHighlighting h s)) = constructed s"
  "observing (snd (applyHighlighting h s)) = observing s"
  "timers (snd (applyHighlighting h s)) = timers s"
  "throttleTimer (snd (applyHighlighting h s)) = throttleTimer s"
  "nav_handlers (snd (applyHighlighting h s)) = nav_handlers s"
  "next_handle (snd (applyHighlighting h s)) = next_handle s"
  "passes (snd (applyHighlighting h s)) = Suc (passes s)"
proof -
  obtain e l where "applyHighlighting h s =
      (Inr (), s\<lparr>passes := Suc (passes s), elements := e, logged := l\<rparr>)"
    using applyHighlighting_shape by blast
  then show "observer (snd (applyHighlighting h s)) = observer s"
    "constructed (snd (applyHighlighting h s)) = constructed s"
    "observing (snd (applyHighlighting h s)) = observing s"
    "timers (snd (applyHighlighting h s)) = timers s"
    "throttleTimer (snd (applyHighlighting h s)) = throttleTimer s"
    "nav_handlers (snd (applyHighlighting h s)) = nav_handlers s"
    "next_handle (snd (applyHighlighting h s)) = next_handle s"
    "passes (snd (applyHighlighting h s)) = Suc (passes s)"
    by simp_all
qed

lemma injectStyles_keeps:
  "observer (snd (injectStyles s)) = observer s"
  "constructed (snd (injectStyles s)) = constructed s"
  "observing (snd (injectStyles s)) = observing s"
  "timers (snd (injectStyles s)) = timers s"
  "throttleTimer (snd (injectStyles s)) = throttleTimer s"
  "nav_handlers (snd (injectStyles s)) = nav_handlers s"
  "next_handle (snd (injectStyles s)) = Suc (next_handle s)"
  using template_cases[of "config s"]
  by (auto simp: injectStyles_rendered injectStyles_template_throws)

lemma Log_keeps:
  "observer (snd (Log_info msg s)) = observer s"
  "constructed (snd (Log_info msg s)) = constructed s"
  "observing (snd (Log_info msg s)) = observing s"
  "timers (snd (Log_info msg s)) = timers s"
  "throttleTimer (snd (Log_info msg s)) = throttleTimer s"
  "nav_handlers (snd (Log_info msg s)) = nav_handlers s"
  "next_handle (snd (Log_info msg s)) = next_handle s"
  "observer (snd (Log_error msg e s)) = observer s"
  "constructed (snd (Log_error msg e s)) = constructed s"
  "observing (snd (Log_error msg e s)) = observing s"
  "timers (snd (Log_error msg e s)) = timers s"
  "throttleTimer (snd (Log_error msg e s)) = throttleTimer s"
  "nav_handlers (snd (Log_error msg e s)) = nav_handlers s"
  "next_handle (snd (Log_error msg e s)) = next_handle s"
  by (simp_all add: Log_info_def Log_error_def modify_def)

lemmas step_keeps = loadConfig_keeps applyHighlighting_keeps injectStyles_keeps Log_keeps

text \<open>
  C9 (as amended). \<^verbatim>\<open>onInit\<close> never throws, whatever the host does: its promise resolves.
  Configuration loading, style injection, the highlighting pass and the attachment of the
  observer each catch and log what is thrown inside them (each is a \<^verbatim>\<open>try\<close> around its
  whole body whose \<^verbatim>\<open>catch\<close> only logs, and such a statement completes whatever its body
  does), so a failure in one of them does not keep the later steps from running: when
  the subscription to the navigation event returns, the final state is that of all
  five steps run in order. The subscription
  itself is guarded only by the \<^verbatim>\<open>try\<close> around all of \<^verbatim>\<open>onInit\<close>: when it throws, the error
  is logged as \<^verbatim>\<open>Initialization failed\<close> and the observer is not attached.
\<close>

theorem onInit_always_resolves:
  "fst (onInit h s) = Inr () \<and>
   (\<forall>t. fst (loadConfig h t) = Inr () \<and> fst (injectStyles t) = Inr () \<and>
        fst (applyHighlighting h t) = Inr () \<and> fst (observeDOM t) = Inr ()) \<and>
   (\<forall>body msg t. fst (try_catch body (\<lambda>error. Log_error msg error) t) = Inr ()) \<and>
   (navigatedEvent_add h = None \<longrightarrow>
      snd (onInit h s) =
        snd (observeDOM (snd (navigatedEvent_add_handler h
          (snd (applyHighlighting h (snd (injectStyles (snd (loadConfig h
            (snd (Log_info ''Initialized'' s)))))))))))) \<and>
   (\<forall>x. navigatedEvent_add h = Some x \<longrightarrow>
      snd (onInit h s) =
        snd (Log_error ''Initialization failed'' x
          (snd (applyHighlighting h (snd (injectStyles (snd (loadConfig h
            (snd (Log_info ''Initialized'' s))))))))) \<and>
      observer (snd (onInit h s)) = observer s \<and>
      constructed (snd (onInit h s)) = constructed s \<and>
      observing (snd (onInit h s)) = observing s)"
proof (intro conjI allI impI)
  show "fst (onInit h s) = Inr ()"
    by (cases "navigatedEvent_add h") (simp_all add: onInit_subscribed onInit_subscription_throws)
  show "fst (loadConfig h t) = Inr ()" for t by (rule loadConfig_total)
  show "fst (injectStyles t) = Inr ()" for t by (rule injectStyles_total)
  show "fst (applyHighlighting h t) = Inr ()" for t by (rule applyHighlighting_total)
  show "fst (observeDOM t) = Inr ()" for t by (rule observeDOM_total)
  show "fst (try_catch body (\<lambda>error. Log_error msg error) t) = Inr ()" for body msg t
    by (rule guarded_total)
  show "snd (onInit h s) =
        snd (observeDOM (snd (navigatedEvent_add_handler h
          (snd (applyHighlighting h (snd (injectStyles (snd (loadConfig h
            (snd (Log_info ''Initialized'' s)))))))))))"
    if "navigatedEvent_add h = None"
    using that by (simp add: onInit_subscribed)
  fix x assume x: "navigatedEvent_add h = Some x"
  show "snd (onInit h s) =
        snd (Log_error ''Initialization failed'' x
          (snd (applyHighlighting h (snd (injectStyles (snd (loadConfig h
            (snd (Log_info ''Initialized'' s)))))))))"
    by (simp add: onInit_subscription_throws[OF x])
  show "observer (snd (onInit h s)) = observer s"
    by (simp add: onInit_subscription_throws[OF x] step_keeps)
  show "constructed (snd (onInit h s)) = constructed s"
    by (simp add: onInit_subscription_throws[OF x] step_keeps)
  show "observing (snd (onInit h s)) = observing s"
    by (simp add: onInit_subscription_throws[OF x] step_keeps)
qed

text \<open>
  On the demonstration page: with a subscription that throws the promise still resolves
  and nothing observes the body; with one that returns the promise resolves.
\<close>

theorem onInit_always_resolves_witness:
  "fst (onInit (demo_env\<lparr>navigatedEvent_add := Some (HostError ''navigatedEvent'')\<rparr>) demo_page) = Inr () \<and>
   observing (snd (onInit (demo_env\<lparr>navigatedEvent_add := Some (HostError ''navigatedEvent'')\<rparr>) demo_page)) = [] \<and>
   fst (onInit demo_env demo_page) = Inr ()"
proof -
  let ?h = "demo_env\<lparr>navigatedEvent_add := Some (HostError ''navigatedEvent'')\<rparr>"
  have x: "navigatedEvent_add ?h = Some (HostError ''navigatedEvent'')" by simp
  from onInit_always_resolves[of ?h demo_page] x
  have "fst (onInit ?h demo_page) = Inr () \<and> observing (snd (onInit ?h demo_page)) = observing demo_page"
    by blast
  moreover from onInit_always_resolves[of demo_env demo_page]
  have "fst (onInit demo_env demo_page) = Inr ()" by blast
  ultimately show ?thesis by (simp add: demo_page_def)
qed

text \<open>
  C9 as stated says that a failure in any one step, the event subscription included,
  does not prevent the later steps. On the demonstration page a subscription that throws
  leaves \<^verbatim>\<open>_observer\<close> \<^verbatim>\<open>null\<close> and no observer on the body, where the same start-up with a
  subscription that returns attaches the observer with handle 3.
\<close>

theorem onInit_subscription_counterexample:
  "observer (snd (onInit (demo_env\<lparr>navigatedEvent_add := Some (HostError ''navigatedEvent'')\<rparr>) demo_page)) = None \<and>
   observing (snd (onInit (demo_env\<lparr>navigatedEvent_add := Some (HostError ''navigatedEvent'')\<rparr>) demo_page)) = [] \<and>
   observer (snd (onInit demo_env demo_page)) = Some 3 \<and>
   observing (snd (onInit demo_env demo_page)) = [3]"
proof -
  let ?h = "demo_env\<lparr>navigatedEvent_add := Some (HostError ''navigatedEvent'')\<rparr>"
  have x: "navigatedEvent_add ?h = Some (HostError ''navigatedEvent'')" by simp
  have n: "navigatedEvent_add demo_env = None" by (simp add: demo_env_def)
  have a: "observer (snd (onInit ?h demo_page)) = None \<and> observing (snd (onInit ?h demo_page)) = []"
    by (simp add: onInit_subscription_throws[OF x] step_keeps) (simp add: demo_page_def)
  let ?t = "snd (navigatedEvent_add_handler demo_env
              (snd (applyHighlighting demo_env (snd (injectStyles (snd (loadConfig demo_env
                (snd (Log_info ''Initialized'' demo_page)))))))))"
  have t: "observer ?t = None" "observing ?t = []" "next_handle ?t = 3"
    by (simp_all add: navigatedEvent_add_handler_def modify_def n step_keeps demo_page_def)
  have b: "observer (snd (onInit demo_env demo_page)) = Some 3 \<and>
           observing (snd (onInit demo_env demo_page)) = [3]"
    by (simp add: onInit_subscribed[OF n] observeDOM_absent[OF t(1)] t)
  from a b show ?thesis by simp
qed

section \<open>The throttle (C4)\<close>

text \<open>
  The observer's callback: nothing while the marker is set, one new timeout otherwise.
  So the batches that arrive while a timeout is pending leave the state as it is.
\<close>

lemma observer_callback_pending:
  "timer_set (throttleTimer s) \<Longrightarrow> observer_callback s = (Inr (), s)"
  by (simp add: observer_callback_def prog_defs)

lemma observer_callback_idle:
  "\<not> timer_set (throttleTimer s) \<Longrightarrow>
   observer_callback s =
     (Inr (), s\<lparr>timers := timers s @ [(Suc (next_handle s), ThrottledPass, OBSERVER_THROTTLE_MS)],
                next_handle := Suc (Suc (next_handle s)),
                throttleTimer := Some (Suc (next_handle s))\<rparr>)"
  by (simp add: observer_callback_def setTimeout_def prog_defs)

lemma callbacks_pending:
  "timer_set (throttleTimer s) \<Longrightarrow> fold (\<lambda>m t. snd (observer_callback t)) ms s = s"
  by (induction ms) (simp_all add: observer_callback_pending)

lemma dispatch_Mutations_pending:
  "timer_set (throttleTimer s) \<Longrightarrow> dispatch h Mutations s = s"
  by (simp add: callbacks_pending)

lemma batches_pending:
  "timer_set (throttleTimer s) \<Longrightarrow> fold (dispatch h) (replicate N Mutations) s = s"
  by (induction N) (simp_all add: dispatch_Mutations_pending del: dispatch.simps)

lemma dispatch_Mutations_idle:
  assumes "\<not> timer_set (throttleTimer s)" and "observing s \<noteq> []"
  shows "dispatch h Mutations s = snd (observer_callback s)"
proof -
  from assms(2) obtain m ms where ms: "observing s = m # ms" by (cases "observing s") auto
  have "timer_set (throttleTimer (snd (observer_callback s)))"
    by (simp add: observer_callback_idle[OF assms(1)] timer_set_def)
  then show ?thesis by (simp add: ms callbacks_pending)
qed

text \<open>The timeout's function clears the marker and completes, whatever the pass does.\<close>

lemma throttled_clears:
  "fst (throttled pass t) = Inr () \<and> throttleTimer (snd (throttled pass t)) = None"
proof (cases "pass t")
  case (Pair r t')
  then show ?thesis
    by (cases r) (simp_all add: throttled_def prog_defs)
qed

lemma throttled_pass:
  "throttled (applyHighlighting h) t =
     (Inr (), (snd (applyHighlighting h t))\<lparr>throttleTimer := None\<rparr>)"
proof (cases "applyHighlighting h t")
  case (Pair r t')
  with applyHighlighting_total[of h t] have "r = Inr ()" by simp
  with Pair show ?thesis
    by (simp add: throttled_def try_finally_def try_catch_def modify_def)
qed

lemma dispatch_Timeout_throttle:
  assumes "find (\<lambda>t. fst t = n) (timers s) = Some (n, ThrottledPass, d)"
  shows "dispatch h (Timeout n) s =
           (snd (applyHighlighting h (s\<lparr>timers := filter (\<lambda>t. fst t \<noteq> n) (timers s)\<rparr>)))
             \<lparr>throttleTimer := None\<rparr>"
  using assms by (simp add: timer_body_def throttled_pass)

text \<open>The table of timeouts stays in step with the marker, whatever event arrives.\<close>

lemma throttle_inv_idle: "throttle_inv s \<Longrightarrow> \<not> timer_set (throttleTimer s) \<Longrightarrow> throttleTimer s = None"
  by (auto simp: throttle_inv_def timer_set_def split: option.splits)

lemma fresh_handle:
  "list_all (\<lambda>t. fst t \<le> k) ts \<Longrightarrow> Suc k \<notin> fst ` set ts"
  by (auto simp: list_all_iff)

lemma list_all_le_mono:
  "list_all (\<lambda>t. fst t \<le> (k::nat)) ts \<Longrightarrow> k \<le> k' \<Longrightarrow> list_all (\<lambda>t. fst t \<le> k') ts"
  by (auto simp: list_all_iff)

lemma throttle_inv_callback:
  assumes "throttle_inv s"
  shows "throttle_inv (snd (observer_callback s))"
proof (cases "timer_set (throttleTimer s)")
  case True
  with assms show ?thesis by (simp add: observer_callback_pending)
next
  case False
  with assms have none: "throttleTimer s = None" by (rule throttle_inv_idle)
  from assms have a: "list_all (\<lambda>t. fst t \<le> next_handle s) (timers s)"
    and d: "distinct (map fst (timers s))" and t: "throttle_timers s = []"
    using none by (simp_all add: throttle_inv_def)
  have "list_all (\<lambda>t. fst t \<le> Suc (Suc (next_handle s))) (timers s)"
    by (rule list_all_le_mono[OF a]) simp
  with d t fresh_handle[OF a] show ?thesis
    by (simp add: observer_callback_idle[OF False] throttle_inv_def throttle_timers_def
        split: option.splits)
qed

lemma throttle_inv_callbacks:
  "throttle_inv s \<Longrightarrow> throttle_inv (fold (\<lambda>m t. snd (observer_callback t)) ms s)"
  by (induction ms arbitrary: s) (simp_all add: throttle_inv_callback)

lemma navigated_handler_result:
  "navigated_handler s =
     (Inr (), s\<lparr>timers := timers s @ [(Suc (next_handle s), NavigationPass, 500)],
                next_handle := Suc (Suc (next_handle s))\<rparr>)"
  by (simp add: navigated_handler_def setTimeout_def prog_defs)

lemma throttle_inv_navigated:
  assumes "throttle_inv s"
  shows "throttle_inv (snd (navigated_handler s))"
proof -
  from assms have a: "list_all (\<lambda>t. fst t \<le> next_handle s) (timers s)"
    by (simp add: throttle_inv_def)
  have "list_all (\<lambda>t. fst t \<le> Suc (Suc (next_handle s))) (timers s)"
    by (rule list_all_le_mono[OF a]) simp
  with assms fresh_handle[OF a] show ?thesis
    by (simp add: navigated_handler_result throttle_inv_def throttle_timers_def
        split: option.splits)
qed

lemma throttle_inv_navigations:
  "throttle_inv s \<Longrightarrow> throttle_inv (((\<lambda>t. snd (navigated_handler t)) ^^ k) s)"
  by (induction k) (simp_all add: throttle_inv_navigated)

lemma throttle_inv_pass:
  "throttle_inv s \<Longrightarrow> throttle_inv (snd (applyHighlighting h s))"
  by (simp add: throttle_inv_def throttle_timers_def applyHighlighting_keeps split: option.splits)

lemma throttle_timers_filter:
  "throttle_timers (s\<lparr>timers := filter (\<lambda>t. fst t \<noteq> n) (timers s)\<rparr>) =
     filter (\<lambda>k. k \<noteq> n) (throttle_timers s)"
  by (simp add: throttle_timers_def filter_map comp_def) (metis (mono_tags, lifting) filter_cong)

lemma throttle_inv_Timeout:
  assumes "throttle_inv s"
  shows "throttle_inv (dispatch h (Timeout n) s)"
proof (cases "find (\<lambda>t. fst t = n) (timers s)")
  case None
  with assms show ?thesis by simp
next
  case (Some t)
  then have mem: "t \<in> set (timers s)" and fst: "fst t = n"
    by (auto simp: find_Some_iff)
  let ?s1 = "s\<lparr>timers := filter (\<lambda>t. fst t \<noteq> n) (timers s)\<rparr>"
  from assms have a: "list_all (\<lambda>t. fst t \<le> next_handle ?s1) (timers ?s1)"
    and d: "distinct (map fst (timers ?s1))"
    by (auto simp: throttle_inv_def list_all_iff distinct_map_filter)
  show ?thesis
  proof (cases "fst (snd t)")
    case ThrottledPass
    with mem fst have "n \<in> set (throttle_timers s)"
      by (force simp: throttle_timers_def)
    with assms have "throttle_timers s = [n]"
      by (auto simp: throttle_inv_def split: option.splits)
    then have "throttle_timers ?s1 = []" by (simp add: throttle_timers_filter)
    with a d have "throttle_inv ((snd (applyHighlighting h ?s1))\<lparr>throttleTimer := None\<rparr>)"
      by (simp add: throttle_inv_def throttle_timers_def applyHighlighting_keeps split: option.splits)
    with Some ThrottledPass show ?thesis by (simp add: timer_body_def throttled_pass)
  next
    case NavigationPass
    have "n \<notin> set (throttle_timers s)"
    proof
      assume "n \<in> set (throttle_timers s)"
      then obtain t' where t': "t' \<in> set (timers s)" "fst (snd t') = ThrottledPass" "fst t' = n"
        by (auto simp: throttle_timers_def)
      from assms have "inj_on fst (set (timers s))"
        by (simp add: throttle_inv_def distinct_map)
      with t' mem fst have "t' = t" by (auto dest: inj_onD)
      with t'(2) NavigationPass show False by simp
    qed
    then have "throttle_timers ?s1 = throttle_timers s"
      by (auto simp: throttle_timers_filter filter_id_conv)
    with assms a d have "throttle_inv ?s1"
      by (simp add: throttle_inv_def split: option.splits)
    then have "throttle_inv (snd (applyHighlighting h ?s1))" by (rule throttle_inv_pass)
    with Some NavigationPass show ?thesis by (simp add: timer_body_def)
  qed
qed

lemma throttle_inv_dispatch: "throttle_inv s \<Longrightarrow> throttle_inv (dispatch h ev s)"
proof (cases ev)
  case Mutations
  assume "throttle_inv s"
  with Mutations show ?thesis by (simp add: throttle_inv_callbacks)
next
  case (Timeout n)
  assume "throttle_inv s"
  with Timeout show ?thesis by (simp add: throttle_inv_Timeout del: dispatch.simps)
next
  case Navigated
  assume "throttle_inv s"
  with Navigated show ?thesis by (simp add: throttle_inv_navigations)
qed

lemma throttle_inv_run:
  "throttle_inv s \<Longrightarrow> throttle_inv (fold (dispatch h) evs s)"
  by (induction evs arbitrary: s) (simp_all add: throttle_inv_dispatch del: dispatch.simps)

lemma throttle_inv_at_most_one: "throttle_inv s \<Longrightarrow> length (throttle_timers s) \<le> 1"
  by (auto simp: throttle_inv_def split: option.splits)

text \<open>
  C4. (1) While the marker \<^verbatim>\<open>_throttleTimer\<close> is set (ScheduledRun), any number \<open>N\<close> of
  mutation batches leaves the whole state, and so the table of timeouts, unchanged. (2)
  When the pending throttle timeout \<open>n\<close> then fires, exactly one more pass has run, the
  marker is \<^verbatim>\<open>null\<close> again (Idle) and the timeout has left the table. (3) From Idle, a
  batch delivered to an attached observer files exactly one throttle timeout and sets
  the marker to its handle. (4) For any pass, one that throws included, the timeout's
  function completes and leaves the marker \<^verbatim>\<open>null\<close>. (5) Whatever events arrive, a table
  in step with the marker stays in step, and holds at most one pending throttle timeout.
\<close>

theorem throttle_coalesces:
  "(timer_set (throttleTimer s) \<longrightarrow> fold (dispatch h) (replicate N Mutations) s = s) \<and>
   (\<forall>n d. throttleTimer s = Some n \<and> n \<noteq> 0 \<and>
          find (\<lambda>t. fst t = n) (timers s) = Some (n, ThrottledPass, d) \<longrightarrow>
          passes (dispatch h (Timeout n) (fold (dispatch h) (replicate N Mutations) s)) = Suc (passes s) \<and>
          throttleTimer (dispatch h (Timeout n) (fold (dispatch h) (replicate N Mutations) s)) = None \<and>
          timers (dispatch h (Timeout n) (fold (dispatch h) (replicate N Mutations) s)) =
            filter (\<lambda>t. fst t \<noteq> n) (timers s)) \<and>
   (\<not> timer_set (throttleTimer s) \<and> observing s \<noteq> [] \<longrightarrow>
          timers (dispatch h Mutations s) =
            timers s @ [(Suc (next_handle s), ThrottledPass, OBSERVER_THROTTLE_MS)] \<and>
          throttleTimer (dispatch h Mutations s) = Some (Suc (next_handle s)) \<and>
          timer_set (throttleTimer (dispatch h Mutations s))) \<and>
   (\<forall>pass t. fst (throttled pass t) = Inr () \<and> throttleTimer (snd (throttled pass t)) = None) \<and>
   (throttle_inv s \<longrightarrow>
      (\<forall>evs. throttle_inv (fold (dispatch h) evs s) \<and>
             length (throttle_timers (fold (dispatch h) evs s)) \<le> 1))"
proof (intro conjI allI impI)
  show "fold (dispatch h) (replicate N Mutations) s = s" if "timer_set (throttleTimer s)"
    using that by (rule batches_pending)
next
  fix n d
  assume a: "throttleTimer s = Some n \<and> n \<noteq> 0 \<and>
             find (\<lambda>t. fst t = n) (timers s) = Some (n, ThrottledPass, d)"
  then have "timer_set (throttleTimer s)" by (simp add: timer_set_def)
  then have same: "fold (dispatch h) (replicate N Mutations) s = s" by (rule batches_pending)
  from a have f: "find (\<lambda>t. fst t = n) (timers s) = Some (n, ThrottledPass, d)" by simp
  show "passes (dispatch h (Timeout n) (fold (dispatch h) (replicate N Mutations) s)) = Suc (passes s)"
    unfolding same dispatch_Timeout_throttle[OF f] by (simp add: applyHighlighting_keeps)
  show "throttleTimer (dispatch h (Timeout n) (fold (dispatch h) (replicate N Mutations) s)) = None"
    unfolding same dispatch_Timeout_throttle[OF f] by simp
  show "timers (dispatch h (Timeout n) (fold (dispatch h) (replicate N Mutations) s)) =
          filter (\<lambda>t. fst t \<noteq> n) (timers s)"
    unfolding same dispatch_Timeout_throttle[OF f] by (simp add: applyHighlighting_keeps)
next
  assume a: "\<not> timer_set (throttleTimer s) \<and> observing s \<noteq> []"
  then have d: "dispatch h Mutations s = snd (observer_callback s)"
    by (simp add: dispatch_Mutations_idle del: dispatch.simps)
  from a have i: "\<not> timer_set (throttleTimer s)" by simp
  show "timers (dispatch h Mutations s) =
          timers s @ [(Suc (next_handle s), ThrottledPass, OBSERVER_THROTTLE_MS)]"
    unfolding d by (simp add: observer_callback_idle[OF i])
  show "throttleTimer (dispatch h Mutations s) = Some (Suc (next_handle s))"
    unfolding d by (simp add: observer_callback_idle[OF i])
  show "timer_set (throttleTimer (dispatch h Mutations s))"
    unfolding d by (simp add: observer_callback_idle[OF i] timer_set_def)
next
  show "fst (throttled pass t) = Inr ()" for pass t using throttled_clears by blast
  show "throttleTimer (snd (throttled pass t)) = None" for pass t using throttled_clears by blast
next
  fix evs assume "throttle_inv s"
  then have "throttle_inv (fold (dispatch h) evs s)" by (rule throttle_inv_run)
  then show "throttle_inv (fold (dispatch h) evs s)"
    and "length (throttle_timers (fold (dispatch h) evs s)) \<le> 1"
    using throttle_inv_at_most_one by blast+
qed

text \<open>
  On the demonstration page with the observer attached: the first batch sets the marker
  to timeout 4, five more batches change nothing, and when timeout 4 fires one pass has
  run and the marker is cleared.
\<close>

theorem throttle_coalesces_witness:
  "throttleTimer (dispatch demo_env Mutations (snd (observeDOM demo_page))) = Some 4 \<and>
   fold (dispatch demo_env) (replicate 5 Mutations)
     (dispatch demo_env Mutations (snd (observeDOM demo_page)))
     = dispatch demo_env Mutations (snd (observeDOM demo_page)) \<and>
   passes (dispatch demo_env (Timeout 4)
      (fold (dispatch demo_env) (replicate 5 Mutations)
         (dispatch demo_env Mutations (snd (observeDOM demo_page)))))
     = Suc (passes (dispatch demo_env Mutations (snd (observeDOM demo_page)))) \<and>
   throttleTimer (dispatch demo_env (Timeout 4)
      (fold (dispatch demo_env) (replicate 5 Mutations)
         (dispatch demo_env Mutations (snd (observeDOM demo_page))))) = None"
proof -
  let ?p = "snd (observeDOM demo_page)"
  let ?q = "dispatch demo_env Mutations ?p"
  have p: "\<not> timer_set (throttleTimer ?p) \<and> observing ?p \<noteq> []"
    and p': "next_handle ?p = 3" "timers ?p = []"
    by (simp_all add: observeDOM_absent demo_page_def timer_set_def)
  from throttle_coalesces[of ?p demo_env 0] p
  have q: "timers ?q = timers ?p @ [(Suc (next_handle ?p), ThrottledPass, OBSERVER_THROTTLE_MS)]"
    "throttleTimer ?q = Some (Suc (next_handle ?p))" "timer_set (throttleTimer ?q)"
    by blast+
  from q p' have q': "throttleTimer ?q = Some 4 \<and> 4 \<noteq> (0::nat) \<and>
      find (\<lambda>t. fst t = 4) (timers ?q) = Some (4, ThrottledPass, OBSERVER_THROTTLE_MS)"
    by simp
  from throttle_coalesces[of ?q demo_env 5] q(3)
  have same: "fold (dispatch demo_env) (replicate 5 Mutations) ?q = ?q" by blast
  from throttle_coalesces[of ?q demo_env 5] q'
  have "passes (dispatch demo_env (Timeout 4) (fold (dispatch demo_env) (replicate 5 Mutations) ?q))
          = Suc (passes ?q) \<and>
        throttleTimer (dispatch demo_env (Timeout 4) (fold (dispatch demo_env) (replicate 5 Mutations) ?q))
          = None"
    by blast
  with same q' show ?thesis by simp
qed


section \<open>The observer handle (C10)\<close>











end
